theory Spec2Isabelle
  imports
    Main
    "HOL-Library.Char_ord"
    "HOL-Library.List_Lexorder"
    "HOL-Library.Option_ord"
    "HOL-Library.Multiset"
begin

section \<open>Event listing via RSS: a shallow embedding of EventListingViaRss.ts\<close>

text \<open>
  The module fetches a calendar feed, selects the events that overlap a date range, sorts and
  truncates them, and renders an HTML fragment. Every function of the module is embedded
  below under its own name. A JavaScript string is a \<^typ>\<open>string\<close>, one \<^typ>\<open>char\<close> per
  code unit (code units below 256); \<open>null\<close> is \<^const>\<open>None\<close>. The order on strings is the
  lexicographic order on code units, which is what JavaScript's \<open><\<close> computes on two strings.
\<close>

subsection \<open>String primitives of the platform\<close>

text \<open>
  \<open>String.prototype.trim\<close> removes white space and line terminators at both ends. The code
  units below 256 in that class are TAB, LF, VT, FF, CR, SPACE and NO-BREAK SPACE.
\<close>

definition is_ws :: "char \<Rightarrow> bool" where
  "is_ws c = (of_char c \<in> set [9, 10, 11, 12, 13, 32, 160 :: nat])"

definition trim :: "string \<Rightarrow> string" where
  "trim s = rev (dropWhile is_ws (rev (dropWhile is_ws s)))"

text \<open>\<open>s.indexOf(c) !== -1\<close>\<close>

definition contains_char :: "char \<Rightarrow> string \<Rightarrow> bool" where
  "contains_char c s = (c \<in> set s)"

text \<open>\<open>s.replaceAll(a, b)\<close> for one-character strings \<open>a\<close> and \<open>b\<close>.\<close>

definition replaceAll_char :: "char \<Rightarrow> char \<Rightarrow> string \<Rightarrow> string" where
  "replaceAll_char a b s = map (\<lambda>c. if c = a then b else c) s"

text \<open>
  \<open>s.split(sep)\<close> for a one-character separator: the pieces between the separators, in order;
  the empty string splits into one empty piece.
\<close>

fun split_on :: "char \<Rightarrow> string \<Rightarrow> string list" where
  "split_on sep [] = [[]]"
| "split_on sep (c # cs) =
     (if c = sep then [] # split_on sep cs
      else (c # hd (split_on sep cs)) # tl (split_on sep cs))"

subsection \<open>The three regular expressions of the module\<close>

text \<open>
  \<open>/<[\s\S]+?>/g\<close>: a match starts at a \<open><\<close>, takes at least one arbitrary code unit and then
  as few as possible up to the next \<open>>\<close>. \<^term>\<open>tag_match s\<close> is the text after the match when
  a match starts at the head of \<open>s\<close>.
\<close>

definition tag_match :: "string \<Rightarrow> string option" where
  "tag_match s =
     (case s of
        c # _ # rest \<Rightarrow>
          if c = CHR ''<'' \<and> CHR ''>'' \<in> set rest
          then Some (tl (dropWhile (\<lambda>x. x \<noteq> CHR ''>'') rest))
          else None
      | _ \<Rightarrow> None)"

lemma tag_match_shorter: "tag_match s = Some r \<Longrightarrow> length r < length s"
proof -
  assume m: "tag_match s = Some r"
  then obtain c d rest where s: "s = c # d # rest"
    and r: "r = tl (dropWhile (\<lambda>x. x \<noteq> CHR ''>'') rest)"
    by (auto simp: tag_match_def split: list.splits if_splits)
  have "length r \<le> length rest"
    using length_dropWhile_le [of "\<lambda>x. x \<noteq> CHR ''>''" rest] by (simp add: r)
  then show ?thesis by (simp add: s)
qed

text \<open>
  \<open>html.replace(/<[\s\S]+?>/g, " ")\<close>: the scan goes left to right; a match is replaced by one
  space and the scan goes on after it; a code unit where no match starts is copied.
\<close>

function replace_tags :: "string \<Rightarrow> string" where
  "replace_tags [] = []"
| "replace_tags (c # cs) =
     (case tag_match (c # cs) of
        Some rest \<Rightarrow> CHR '' '' # replace_tags rest
      | None \<Rightarrow> c # replace_tags cs)"
  by pat_completeness auto
termination
  by (relation "measure length") (auto dest: tag_match_shorter)

text \<open>\<open>s.replace(/  +/g, " ")\<close>: a run of two or more spaces becomes one space.\<close>

function collapse_spaces :: "string \<Rightarrow> string" where
  "collapse_spaces [] = []"
| "collapse_spaces [a] = [a]"
| "collapse_spaces (a # b # rest) =
     (if a = CHR '' '' \<and> b = CHR '' ''
      then CHR '' '' # collapse_spaces (dropWhile (\<lambda>x. x = CHR '' '') rest)
      else a # collapse_spaces (b # rest))"
  by pat_completeness auto
termination
proof (relation "measure length")
  fix a b :: char and rest :: string
  show "(dropWhile (\<lambda>x. x = CHR '' '') rest, a # b # rest) \<in> measure length"
    using length_dropWhile_le [of "\<lambda>x. x = CHR '' ''" rest] by simp
qed auto

text \<open>
  \<open>s.replaceAll(/ *, */g, ",")\<close>: a match is a comma with all the spaces before and after it.
  Where no match starts (the spaces at the scan position are not followed by a comma), one
  code unit is copied and the scan goes on.
\<close>

function normalize_commas :: "string \<Rightarrow> string" where
  "normalize_commas [] = []"
| "normalize_commas (c # cs) =
     (case dropWhile (\<lambda>x. x = CHR '' '') (c # cs) of
        [] \<Rightarrow> c # normalize_commas cs
      | d # rest \<Rightarrow>
          if d = CHR '','' then CHR '','' # normalize_commas (dropWhile (\<lambda>x. x = CHR '' '') rest)
          else c # normalize_commas cs)"
  by pat_completeness auto
termination
proof (relation "measure length")
  fix c d :: char and cs rest :: string
  assume "dropWhile (\<lambda>x. x = CHR '' '') (c # cs) = d # rest"
  then have "length rest < length (c # cs)"
    using length_dropWhile_le [of "\<lambda>x. x = CHR '' ''" "c # cs"] by simp
  then show "(dropWhile (\<lambda>x. x = CHR '' '') rest, c # cs) \<in> measure length"
    using length_dropWhile_le [of "\<lambda>x. x = CHR '' ''" rest] by simp
qed auto

subsection \<open>removeTags\<close>

text \<open>
  A value of type \<open>string | null | undefined\<close>: what \<open>item.querySelector(..)?.textContent\<close>
  yields, and the type of an event's title, description and link.
\<close>

datatype jstext = Undefined | Null | Text string

definition removeTags :: "jstext \<Rightarrow> string" where
  "removeTags html =
     (case html of
        Text h \<Rightarrow>
          (let retHtml = replace_tags h;
               retHtml = collapse_spaces retHtml;
               retHtml = trim retHtml
           in retHtml)
      | _ \<Rightarrow> [])"

subsection \<open>appendToUrl\<close>

definition appendToUrl :: "string \<Rightarrow> string option \<Rightarrow> string option \<Rightarrow> string" where
  "appendToUrl url tags categories =
     (let newUrl = url;
          newUrl =
            (case tags of
               None \<Rightarrow> newUrl
             | Some t \<Rightarrow>
                 (let tagArray = split_on CHR '','' (replaceAll_char CHR '' '' CHR ''+'' t)
                  in foldl (\<lambda>u tag. u @ ''&tag='' @ tag) newUrl tagArray));
          newUrl =
            (case categories of
               None \<Rightarrow> newUrl
             | Some c \<Rightarrow>
                 (let categoryArray =
                        split_on CHR '',''
                          (replaceAll_char CHR '' '' CHR ''+'' (normalize_commas (trim c)))
                  in foldl (\<lambda>u category. u @ ''&tag='' @ category) newUrl categoryArray))
      in newUrl)"

subsection \<open>Numbers, dates and the host\<close>

text \<open>
  The numbers the module computes with are the results of \<open>Date.parse\<close> and \<open>parseInt\<close>: an
  integer or \<open>NaN\<close>. A comparison with \<open>NaN\<close> is false.
\<close>

datatype number = NaN | Num int

fun num_le :: "number \<Rightarrow> number \<Rightarrow> bool" where
  "num_le (Num a) (Num b) = (a \<le> b)"
| "num_le _ _ = False"

definition MIN_SAFE_INTEGER :: number where
  "MIN_SAFE_INTEGER = Num (- (2 ^ 53 - 1))"

definition MAX_SAFE_INTEGER :: number where
  "MAX_SAFE_INTEGER = Num (2 ^ 53 - 1)"

text \<open>
  What a date string denotes and how a date prints depend on the browser and its time zone,
  so the host is a parameter: \<open>read_date\<close> reads a date string as milliseconds since the
  epoch (\<open>None\<close> when the host cannot read it), and the four printers are
  \<open>toLocaleString("en-US", {..})\<close> with the options \<open>month: "short"\<close>, \<open>day: "numeric"\<close>,
  \<open>year: "numeric"\<close> and \<open>timeStyle: "short"\<close>, on a valid time value.
\<close>

record host =
  read_date :: "string \<Rightarrow> int option"
  month_short :: "int \<Rightarrow> string"
  day_numeric :: "int \<Rightarrow> string"
  year_numeric :: "int \<Rightarrow> string"
  time_short :: "int \<Rightarrow> string"

text \<open>
  ECMAScript's time values are the integers from \<open>-8.64e15\<close> to \<open>8.64e15\<close>; \<open>TimeClip\<close> maps
  everything else to \<open>NaN\<close>, and every date the platform builds goes through it.
\<close>

definition min_instant :: int where
  "min_instant = - 8640000000000000"

definition max_instant :: int where
  "max_instant = 8640000000000000"

definition TimeClip :: "int \<Rightarrow> number" where
  "TimeClip t = (if t < min_instant \<or> max_instant < t then NaN else Num t)"

definition Date_parse :: "host \<Rightarrow> string \<Rightarrow> number" where
  "Date_parse h s = (case read_date h s of None \<Rightarrow> NaN | Some t \<Rightarrow> TimeClip t)"

text \<open>\<open>new Date(s).toLocaleString("en-US", options)\<close>; an invalid date prints as \<open>Invalid Date\<close>.\<close>

definition toLocaleString :: "(int \<Rightarrow> string) \<Rightarrow> number \<Rightarrow> string" where
  "toLocaleString printer d = (case d of NaN \<Rightarrow> ''Invalid Date'' | Num t \<Rightarrow> printer t)"

subsection \<open>Effects\<close>

text \<open>
  The module writes to the console and to the error sink (\<open>LogError\<close> of ErrorReporting.ts,
  which notifies the monitoring service). A function that does either returns the list of
  its effects, in order, next to its result.
\<close>

datatype effect = Console_error string | Console_trace | LogError string

subsection \<open>eventWithinDateRange\<close>

definition eventWithinDateRange ::
  "host \<Rightarrow> string option \<Rightarrow> string option \<Rightarrow> string option \<Rightarrow> string option
    \<Rightarrow> effect list \<times> bool" where
  "eventWithinDateRange h eventStart eventEnd beginDateRange endDateRange =
     (case (eventStart, eventEnd) of
        (Some es, Some ee) \<Rightarrow>
          (let eventStartStr = (if \<not> contains_char CHR ''T'' es then es @ ''T00:00'' else es);
               eventStartNum = Date_parse h eventStartStr;
               eventEndStr = (if \<not> contains_char CHR ''T'' ee then ee @ ''T23:59'' else ee);
               eventEndNum = Date_parse h eventEndStr;
               beginDateRangeNum =
                 (case beginDateRange of Some b \<Rightarrow> Date_parse h b | None \<Rightarrow> MIN_SAFE_INTEGER);
               endDateRangeNum =
                 (case endDateRange of Some e \<Rightarrow> Date_parse h e | None \<Rightarrow> MAX_SAFE_INTEGER)
           in ([], num_le eventStartNum endDateRangeNum \<and> num_le beginDateRangeNum eventEndNum))
      | _ \<Rightarrow>
          ([Console_error ''Event start or end is null'', Console_trace,
            LogError ''Event start or end is null''], False))"

subsection \<open>parseInt, Array.prototype.sort and Array.prototype.slice\<close>

text \<open>
  \<open>parseInt(s)\<close> with no radix: leading white space is skipped, then an optional sign, then
  \<open>0x\<close> or \<open>0X\<close> selects radix 16 (radix 10 otherwise), then the longest run of digits of the
  radix is read; with no digit the result is \<open>NaN\<close>. Whatever follows the digits is ignored.
  (The platform rounds a value beyond \<open>2^53\<close>; the module only compares the count with the
  length of an array and slices by it, which the rounding does not change.)
\<close>

definition digit_value :: "nat \<Rightarrow> char \<Rightarrow> nat option" where
  "digit_value radix c =
     (let n = (of_char c :: nat);
          v = (if 48 \<le> n \<and> n \<le> 57 then Some (n - 48)
               else if 97 \<le> n \<and> n \<le> 122 then Some (n - 87)
               else if 65 \<le> n \<and> n \<le> 90 then Some (n - 55)
               else None)
      in case v of None \<Rightarrow> None | Some d \<Rightarrow> if d < radix then Some d else None)"

fun read_digits :: "nat \<Rightarrow> nat option \<Rightarrow> string \<Rightarrow> nat option" where
  "read_digits radix acc [] = acc"
| "read_digits radix acc (c # cs) =
     (case digit_value radix c of
        None \<Rightarrow> acc
      | Some d \<Rightarrow> read_digits radix (Some ((case acc of None \<Rightarrow> 0 | Some a \<Rightarrow> a) * radix + d)) cs)"

definition parseInt :: "string \<Rightarrow> number" where
  "parseInt s =
     (let s1 = dropWhile is_ws s;
          (sign, s2) =
            (case s1 of
               [] \<Rightarrow> (1 :: int, s1)
             | c # r \<Rightarrow> if c = CHR ''-'' then (- 1, r) else if c = CHR ''+'' then (1, r) else (1, s1));
          (radix, s3) =
            (if take 2 s2 = ''0x'' \<or> take 2 s2 = ''0X'' then (16 :: nat, drop 2 s2) else (10, s2))
      in case read_digits radix None s3 of
           None \<Rightarrow> NaN
         | Some n \<Rightarrow> Num (sign * int n))"

text \<open>
  \<open>xs.sort(cmp)\<close> is stable: with a consistent comparator it yields the one arrangement that
  is ordered by \<open>cmp\<close> and keeps equal elements in their order. The model is the stable
  insertion sort: an element goes before the first element it does not follow.
\<close>

fun insert_by :: "('a \<Rightarrow> 'a \<Rightarrow> int) \<Rightarrow> 'a \<Rightarrow> 'a list \<Rightarrow> 'a list" where
  "insert_by cmp x [] = [x]"
| "insert_by cmp x (y # ys) = (if cmp x y \<le> 0 then x # y # ys else y # insert_by cmp x ys)"

definition Array_sort :: "('a \<Rightarrow> 'a \<Rightarrow> int) \<Rightarrow> 'a list \<Rightarrow> 'a list" where
  "Array_sort cmp xs = foldr (insert_by cmp) xs []"

text \<open>
  \<open>xs.slice(0, n)\<close>: a negative \<open>n\<close> counts from the end of the array, and both ends are
  clamped to the array.
\<close>

definition Array_slice0 :: "'a list \<Rightarrow> int \<Rightarrow> 'a list" where
  "Array_slice0 xs n =
     (let len = int (length xs);
          final = (if n < 0 then max (len + n) 0 else min n len)
      in take (nat final) xs)"

subsection \<open>getEvents\<close>

text \<open>
  The fields of \<open>CalendarEvent\<close> are \<open>start\<close>, \<open>end\<close>, \<open>title\<close>, \<open>description\<close> and \<open>link\<close>; they
  carry the prefix \<open>ev_\<close> here.
\<close>

record CalendarEvent =
  ev_start :: "string option"
  ev_end :: "string option"
  ev_title :: jstext
  ev_description :: jstext
  ev_link :: jstext

text \<open>
  What \<open>getEvents\<close> reads of one \<open>item\<close> element of the feed: the text contents of its
  \<open>start\<close> and \<open>end\<close> descendants in the calendar namespace, in document order, and the text
  contents of its first \<open>title\<close>, \<open>description\<close> and \<open>link\<close> descendants. The document is the
  list of its \<open>item\<close> elements.
\<close>

record item =
  startElements :: "string option list"
  endElements :: "string option list"
  item_title :: jstext
  item_description :: jstext
  item_link :: jstext

text \<open>The loop over the items: an item with no start or no end element is skipped.\<close>

fun collect_events ::
  "host \<Rightarrow> string option \<Rightarrow> string option \<Rightarrow> item list \<Rightarrow> effect list \<times> CalendarEvent list" where
  "collect_events h dataBegin dataEnd [] = ([], [])"
| "collect_events h dataBegin dataEnd (it # its) =
     (case startElements it of
        [] \<Rightarrow> collect_events h dataBegin dataEnd its
      | s0 # _ \<Rightarrow>
          (case endElements it of
             [] \<Rightarrow> collect_events h dataBegin dataEnd its
           | e0 # _ \<Rightarrow>
               (let (fx, isWithinDateRange) = eventWithinDateRange h s0 e0 dataBegin dataEnd;
                    (fx', events) = collect_events h dataBegin dataEnd its
                in if \<not> isWithinDateRange then (fx @ fx', events)
                   else (fx @ fx',
                         \<lparr>ev_start = s0, ev_end = e0, ev_title = item_title it,
                          ev_description = item_description it, ev_link = item_link it\<rparr>
                         # events))))"

text \<open>The comparator of the sort, on the \<open>start\<close> fields.\<close>

definition compare_start :: "CalendarEvent \<Rightarrow> CalendarEvent \<Rightarrow> int" where
  "compare_start a b =
     (case (ev_start a, ev_start b) of
        (None, None) \<Rightarrow> 0
      | (None, Some _) \<Rightarrow> - 1
      | (Some _, None) \<Rightarrow> 1
      | (Some x, Some y) \<Rightarrow> if x < y then - 1 else if x > y then 1 else 0)"

definition getEvents ::
  "host \<Rightarrow> item list \<Rightarrow> string option \<Rightarrow> string option \<Rightarrow> string option
    \<Rightarrow> effect list \<times> CalendarEvent list" where
  "getEvents h doc dataBegin dataEnd dataCount =
     (let (fx, events) = collect_events h dataBegin dataEnd doc;
          numEventsToDisplay = (2 :: int);
          numEventsToDisplay =
            (case dataCount of
               None \<Rightarrow> numEventsToDisplay
             | Some c \<Rightarrow>
                 (let parsedCount = parseInt c
                  in case parsedCount of NaN \<Rightarrow> numEventsToDisplay | Num n \<Rightarrow> n));
          numEventsToDisplay =
            (if int (length events) < numEventsToDisplay then int (length events)
             else numEventsToDisplay)
      in if length events = 0 then (fx, [])
         else (fx,
               Array_slice0
                 (if length events > 1 then Array_sort compare_start events else events)
                 numEventsToDisplay))"

subsection \<open>getHtml\<close>

text \<open>A thrown \<open>Error\<close> or a rejection, with its message.\<close>

datatype error = Error string

text \<open>How a template literal prints a value of type \<open>string | null | undefined\<close>.\<close>

definition template_text :: "jstext \<Rightarrow> string" where
  "template_text v = (case v of Undefined \<Rightarrow> ''undefined'' | Null \<Rightarrow> ''null'' | Text s \<Rightarrow> s)"

text \<open>
  The five template literals of the loop body, with their line breaks and indentation. The
  code unit U+226B after \<open>Read more\<close> is above 255 and stands as its three UTF-8 bytes.
\<close>

definition much_greater_than :: string where
  "much_greater_than = [CHR 0xE2, CHR 0x89, CHR 0xAB]"

definition date_template :: "string \<Rightarrow> string \<Rightarrow> string" where
  \<open>date_template outMonthStr outDayStr =
     ''\<newline>                <div class="eventWrap columns col2">''
     @ ''\<newline>                    <div class="date">''
     @ ''\<newline>                        <div class="dateWrap"><span class="month">''
     @ outMonthStr @ ''</span><span class="day">'' @ outDayStr @ ''</span>''
     @ ''\<newline>            ''\<close>

definition year_template :: "string \<Rightarrow> string" where
  \<open>year_template outYearStr =
     ''\<newline>                            <span class="year">'' @ outYearStr @ ''</span>''
     @ ''\<newline>                ''\<close>

definition title_template :: "string \<Rightarrow> string \<Rightarrow> string" where
  \<open>title_template link title =
     ''\<newline>                        </div>''
     @ ''\<newline>                    </div>''
     @ ''\<newline>                    <div class="eventDescription">''
     @ ''\<newline>                        <div class="title"><a href="'' @ link @ ''">'' @ title
     @ ''</a></div>''
     @ ''\<newline>            ''\<close>

definition time_template :: "string \<Rightarrow> string" where
  \<open>time_template outTimeStr =
     ''\<newline>                        <div class="time">'' @ outTimeStr @ ''</div>''
     @ ''\<newline>                ''\<close>

definition description_template :: "string \<Rightarrow> string \<Rightarrow> string" where
  \<open>description_template description link =
     ''\<newline>                        <div class="description"><span>'' @ description
     @ ''</span></div>''
     @ ''\<newline>                        <div class="read-more"><a href="'' @ link
     @ ''">Read more '' @ much_greater_than @ ''</a></div>''
     @ ''\<newline>                    </div>''
     @ ''\<newline>                </div>''
     @ ''\<newline>            ''\<close>

text \<open>
  One iteration of the loop for an event whose start \<open>es\<close> and end \<open>ee\<close> are not null: the
  string built so far, extended by the event.
\<close>

definition getHtml_body ::
  "host \<Rightarrow> string option \<Rightarrow> CalendarEvent \<Rightarrow> string \<Rightarrow> string \<Rightarrow> string \<Rightarrow> string" where
  "getHtml_body h dataShowYear event es ee htmlResult =
     (let hasTime = (contains_char CHR ''T'' es \<and> contains_char CHR ''T'' ee);
          startDateStr = (if \<not> contains_char CHR ''T'' es then es @ ''T00:00'' else es);
          startDate = Date_parse h startDateStr;
          endDateStr = (if \<not> contains_char CHR ''T'' ee then ee @ ''T23:59'' else ee);
          endDate = Date_parse h endDateStr;
          startMonthStr = toLocaleString (month_short h) startDate;
          startDayStr = toLocaleString (day_numeric h) startDate;
          startYearStr = toLocaleString (year_numeric h) startDate;
          endMonthStr = toLocaleString (month_short h) endDate;
          endDayStr = toLocaleString (day_numeric h) endDate;
          endYearStr = toLocaleString (year_numeric h) endDate;
          outTimeStr =
            toLocaleString (time_short h) startDate @ '' - ''
            @ toLocaleString (time_short h) endDate;
          outMonthStr =
            (if startMonthStr \<noteq> endMonthStr then startMonthStr @ ''-'' @ endMonthStr
             else startMonthStr);
          outDayStr =
            (if startDayStr \<noteq> endDayStr then startDayStr @ ''-'' @ endDayStr
             else startDayStr);
          outYearStr =
            (if startYearStr \<noteq> endYearStr then startYearStr @ ''-'' @ endYearStr
             else startYearStr);
          showYear = (dataShowYear \<noteq> None \<and> dataShowYear = Some ''true'');
          htmlResult = htmlResult @ date_template outMonthStr outDayStr;
          htmlResult = (if showYear then htmlResult @ year_template outYearStr else htmlResult);
          htmlResult =
            htmlResult
            @ title_template (template_text (ev_link event)) (template_text (ev_title event));
          htmlResult = (if hasTime then htmlResult @ time_template outTimeStr else htmlResult);
          htmlResult =
            htmlResult
            @ description_template (removeTags (ev_description event))
                (template_text (ev_link event))
      in htmlResult)"

text \<open>
  The loop over the events, with the string built so far. An event with a null start or end
  is traced, reported to the sink and thrown (\<^const>\<open>Inl\<close>).
\<close>

fun getHtml_loop ::
  "host \<Rightarrow> string option \<Rightarrow> CalendarEvent list \<Rightarrow> string \<Rightarrow> effect list \<times> (error + string)" where
  "getHtml_loop h dataShowYear [] htmlResult = ([], Inr htmlResult)"
| "getHtml_loop h dataShowYear (event # events) htmlResult =
     (case (ev_start event, ev_end event) of
        (Some es, Some ee) \<Rightarrow>
          getHtml_loop h dataShowYear events (getHtml_body h dataShowYear event es ee htmlResult)
      | _ \<Rightarrow>
          ([Console_trace, LogError ''Event date is invalid''],
           Inl (Error ''Event date is invalid'')))"

definition getHtml ::
  "host \<Rightarrow> CalendarEvent list \<Rightarrow> string option \<Rightarrow> effect list \<times> (error + string)" where
  \<open>getHtml h events dataShowYear =
     (if length events = 0 then ([], Inr ''There are no events to display.'')
      else
        (case getHtml_loop h dataShowYear events
                ''<div class="homeEvents row hasBackground"><div class="wrapper">'' of
           (fx, Inl e) \<Rightarrow> (fx, Inl e)
         | (fx, Inr htmlResult) \<Rightarrow> (fx, Inr (htmlResult @ ''</div></div>''))))\<close>

subsection \<open>main\<close>

definition CALENDAR_RSS_URL :: string where
  "CALENDAR_RSS_URL =
     ''https://api.calendar.moderncampus.net/pubcalendar/''
     @ ''6c766263-8719-4764-a0df-af488b8d5bbe/rss''
     @ ''?url=https%3A%2F%2Fwww.ferris.edu%2Fcalendar%2Fhomepage.htm&hash=true&end=2099-12-31''"

text \<open>
  An element of class \<open>event-listing-via-rss\<close>: what \<open>getAttribute\<close> returns for its six data
  attributes (\<open>null\<close> for a missing one), and its \<open>innerHTML\<close>.
\<close>

record element =
  attr_begin :: "string option"
  attr_end :: "string option"
  attr_count :: "string option"
  attr_tags :: "string option"
  attr_categories :: "string option"
  attr_show_year :: "string option"
  innerHTML :: string

text \<open>The fields of \<open>DataAttr\<close>, with the prefix \<open>data_\<close>.\<close>

record DataAttr =
  data_begin :: "string option"
  data_end :: "string option"
  data_count :: "string option"
  data_tags :: "string option"
  data_categories :: "string option"
  data_showYear :: "string option"

definition isNullOrEmpty :: "string option \<Rightarrow> bool" where
  "isNullOrEmpty v = (case v of None \<Rightarrow> True | Some s \<Rightarrow> trim s = [])"

definition getDataAttr :: "element \<Rightarrow> DataAttr" where
  "getDataAttr el =
     \<lparr>data_begin = (if isNullOrEmpty (attr_begin el) then None else attr_begin el),
      data_end = (if isNullOrEmpty (attr_end el) then None else attr_end el),
      data_count = (if isNullOrEmpty (attr_count el) then None else attr_count el),
      data_tags = (if isNullOrEmpty (attr_tags el) then None else attr_tags el),
      data_categories = (if isNullOrEmpty (attr_categories el) then None else attr_categories el),
      data_showYear = (if isNullOrEmpty (attr_show_year el) then None else attr_show_year el)\<rparr>"

text \<open>
  \<open>fetchXmlDoc\<close> awaits the response to a request and parses its text. The network is a
  parameter: for the \<open>n\<close>-th request of a run of the module (counted from 0) and its URL, the
  rejection of the fetch or the \<open>item\<close> elements of the parsed document.
\<close>

type_synonym network = "nat \<Rightarrow> string \<Rightarrow> error + item list"

definition fetchXmlDoc :: "network \<Rightarrow> nat \<Rightarrow> string \<Rightarrow> error + item list" where
  "fetchXmlDoc net n url = net n url"

text \<open>
  One iteration of the loop of \<open>main\<close>, the \<open>n\<close>-th: the effects and, when nothing is thrown,
  the new \<open>innerHTML\<close> of the element.
\<close>

definition main_body ::
  "host \<Rightarrow> network \<Rightarrow> nat \<Rightarrow> element \<Rightarrow> effect list \<times> (error + string)" where
  "main_body h net n el =
     (let data = getDataAttr el;
          fullUrl = appendToUrl CALENDAR_RSS_URL (data_tags data) (data_categories data)
      in case fetchXmlDoc net n fullUrl of
           Inl reason \<Rightarrow> ([], Inl reason)
         | Inr doc \<Rightarrow>
             (let (fx, events) = getEvents h doc (data_begin data) (data_end data) (data_count data);
                  (fx', html) = getHtml h events (data_showYear data)
              in (fx @ fx', html)))"

text \<open>
  The loop of \<open>main\<close> over the elements, one after the other, from the \<open>n\<close>-th iteration on.
  The result is the effects, the elements as the loop leaves them, and the reason of the
  rejection when an iteration throws: the loop has no handler, so an exception ends it.
\<close>

fun main_loop ::
  "host \<Rightarrow> network \<Rightarrow> nat \<Rightarrow> element list \<Rightarrow> effect list \<times> element list \<times> error option" where
  "main_loop h net n [] = ([], [], None)"
| "main_loop h net n (el # els) =
     (case main_body h net n el of
        (fx, Inl reason) \<Rightarrow> (fx, el # els, Some reason)
      | (fx, Inr html) \<Rightarrow>
          (case main_loop h net (Suc n) els of
             (fx', els', result) \<Rightarrow> (fx @ fx', el\<lparr>innerHTML := html\<rparr> # els', result)))"

definition main :: "host \<Rightarrow> network \<Rightarrow> element list \<Rightarrow> effect list \<times> element list \<times> error option" where
  "main h net eventListingElements = main_loop h net 0 eventListingElements"

text \<open>
  \<open>LogError\<close> is exported by ErrorReporting.ts, which first awaits the loading of the BugSnag
  script and catches its failure. The body of \<open>LogError\<close> is \<open>Bugsnag?.notify(new Error(message))\<close>.
  When the script has loaded, the global \<open>Bugsnag\<close> exists and the message goes to the sink.
  When it has not, the identifier \<open>Bugsnag\<close> is undeclared; the optional call guards a null
  or undefined value, not an undeclared identifier, so evaluating it throws a
  \<open>ReferenceError\<close>. The result is the effects and the exception thrown, if any.

  The module calls \<open>LogError\<close> at three places. Two of them, in \<open>eventWithinDateRange\<close> and
  in \<open>getHtml\<close>, stand on the branches for a null start or end, which the text content of
  an element never is; they are written above as the effect of the call with the script
  loaded. The third is the handler of the top level, where the state of the script decides
  what the caller sees.
\<close>

datatype bugsnag = Loaded | Undeclared

definition LogError_call :: "bugsnag \<Rightarrow> string \<Rightarrow> effect list \<times> error option" where
  "LogError_call sink message =
     (case sink of
        Loaded \<Rightarrow> ([LogError message], None)
      | Undeclared \<Rightarrow> ([], Some (Error ''Bugsnag is not defined'')))"

text \<open>
  The module's top level: \<open>main().catch(..)\<close>. The handler writes the reason to the console,
  calls \<open>LogError\<close> and throws the reason again, so the promise it returns is rejected with the
  reason. When the call of \<open>LogError\<close> throws, the handler ends there: the promise is rejected
  with what \<open>LogError\<close> threw, and \<open>throw reason\<close> is not reached.
\<close>

datatype outcome = Resolved | Rejected error

definition error_message :: "error \<Rightarrow> string" where
  "error_message e = (case e of Error m \<Rightarrow> m)"

definition run_module ::
  "host \<Rightarrow> bugsnag \<Rightarrow> network \<Rightarrow> element list \<Rightarrow> effect list \<times> element list \<times> outcome" where
  "run_module h sink net eventListingElements =
     (case main h net eventListingElements of
        (fx, els, None) \<Rightarrow> (fx, els, Resolved)
      | (fx, els, Some reason) \<Rightarrow>
          (case LogError_call sink (error_message reason) of
             (fx', None) \<Rightarrow>
               (fx @ [Console_error (error_message reason)] @ fx', els, Rejected reason)
           | (fx', Some thrown) \<Rightarrow>
               (fx @ [Console_error (error_message reason)] @ fx', els, Rejected thrown)))"

subsection \<open>A host for the examples\<close>

text \<open>
  The examples run on one concrete host: a browser in the time zone UTC that reads the two
  shapes of date string the module's documentation names, \<open>YYYY-MM-DD\<close> and
  \<open>YYYY-MM-DDTHH:MM\<close> (years 0001 to 9999), and prints in the \<open>en-US\<close> locale. Days are
  counted with the usual civil-calendar arithmetic on eras of 400 years.
\<close>

definition decimal :: "string \<Rightarrow> nat option" where
  "decimal s =
     (if s \<noteq> [] \<and> list_all (\<lambda>c. digit_value 10 c \<noteq> None) s then read_digits 10 None s
      else None)"

definition days_from_civil :: "int \<Rightarrow> int \<Rightarrow> int \<Rightarrow> int" where
  "days_from_civil y m d =
     (let y' = (if m \<le> 2 then y - 1 else y);
          era = y' div 400;
          yoe = y' - era * 400;
          doy = (153 * (if m > 2 then m - 3 else m + 9) + 2) div 5 + d - 1;
          doe = yoe * 365 + yoe div 4 - yoe div 100 + doy
      in era * 146097 + doe - 719468)"

definition civil_from_days :: "int \<Rightarrow> int \<times> int \<times> int" where
  "civil_from_days z0 =
     (let z = z0 + 719468;
          era = z div 146097;
          doe = z - era * 146097;
          yoe = (doe - doe div 1460 + doe div 36524 - doe div 146096) div 365;
          doy = doe - (365 * yoe + yoe div 4 - yoe div 100);
          mp = (5 * doy + 2) div 153;
          d = doy - (153 * mp + 2) div 5 + 1;
          m = (if mp < 10 then mp + 3 else mp - 9);
          y = yoe + era * 400 + (if m \<le> 2 then 1 else 0)
      in (y, m, d))"

definition days_in_month :: "nat \<Rightarrow> nat \<Rightarrow> nat" where
  "days_in_month y m =
     (if m = 2 then (if y mod 4 = 0 \<and> (y mod 100 \<noteq> 0 \<or> y mod 400 = 0) then 29 else 28)
      else if m = 4 \<or> m = 6 \<or> m = 9 \<or> m = 11 then 30
      else 31)"

definition utc_read_time :: "string \<Rightarrow> int option" where
  "utc_read_time s =
     (case (decimal (take 2 (drop 1 s)), decimal (drop 4 s)) of
        (Some hh, Some mm) \<Rightarrow>
          if length s = 6 \<and> s ! 0 = CHR ''T'' \<and> s ! 3 = CHR '':'' \<and> hh < 24 \<and> mm < 60
          then Some (int hh * 3600000 + int mm * 60000)
          else None
      | _ \<Rightarrow> None)"

definition utc_read_day :: "string \<Rightarrow> int option" where
  "utc_read_day s =
     (case (decimal (take 4 s), decimal (take 2 (drop 5 s)), decimal (drop 8 s)) of
        (Some y, Some m, Some d) \<Rightarrow>
          if length s = 10 \<and> s ! 4 = CHR ''-'' \<and> s ! 7 = CHR ''-'' \<and> 1 \<le> y
             \<and> 1 \<le> m \<and> m \<le> 12 \<and> 1 \<le> d \<and> d \<le> days_in_month y m
          then Some (days_from_civil (int y) (int m) (int d) * 86400000)
          else None
      | _ \<Rightarrow> None)"

definition utc_read_date :: "string \<Rightarrow> int option" where
  "utc_read_date s =
     (case utc_read_day (take 10 s) of
        None \<Rightarrow> None
      | Some day \<Rightarrow>
          if drop 10 s = [] then Some day
          else (case utc_read_time (drop 10 s) of None \<Rightarrow> None | Some ms \<Rightarrow> Some (day + ms)))"

fun show_nat :: "nat \<Rightarrow> string" where
  "show_nat n =
     (if n < 10 then [char_of (48 + n)] else show_nat (n div 10) @ [char_of (48 + n mod 10)])"

declare show_nat.simps [simp del]

definition month_names :: "string list" where
  "month_names =
     [''Jan'', ''Feb'', ''Mar'', ''Apr'', ''May'', ''Jun'',
      ''Jul'', ''Aug'', ''Sep'', ''Oct'', ''Nov'', ''Dec'']"

definition utc_month_short :: "int \<Rightarrow> string" where
  "utc_month_short t =
     (case civil_from_days (t div 86400000) of (y, m, d) \<Rightarrow> month_names ! nat (m - 1))"

definition utc_day_numeric :: "int \<Rightarrow> string" where
  "utc_day_numeric t = (case civil_from_days (t div 86400000) of (y, m, d) \<Rightarrow> show_nat (nat d))"

definition utc_year_numeric :: "int \<Rightarrow> string" where
  "utc_year_numeric t = (case civil_from_days (t div 86400000) of (y, m, d) \<Rightarrow> show_nat (nat y))"

definition utc_time_short :: "int \<Rightarrow> string" where
  "utc_time_short t =
     (let minutes = nat ((t div 60000) mod 1440);
          hh = minutes div 60;
          mm = minutes mod 60;
          h12 = (if hh mod 12 = 0 then 12 else hh mod 12)
      in show_nat h12 @ '':'' @ show_nat (mm div 10) @ show_nat (mm mod 10) @ '' ''
         @ (if hh < 12 then ''AM'' else ''PM''))"

definition utc_host :: host where
  "utc_host =
     \<lparr>read_date = utc_read_date, month_short = utc_month_short, day_numeric = utc_day_numeric,
      year_numeric = utc_year_numeric, time_short = utc_time_short\<rparr>"

text \<open>
  A second host, in the same time zone and locale, that also reads a time zone designator
  after the minutes of a date with a time: \<open>Z\<close>, or an offset \<open>+HH:MM\<close> or \<open>-HH:MM\<close> from UTC,
  as the date-time string format of ECMAScript has them.
\<close>

definition offset_read_date :: "string \<Rightarrow> int option" where
  "offset_read_date s =
     (case utc_read_date (take 16 s) of
        None \<Rightarrow> None
      | Some t \<Rightarrow>
          (let z = drop 16 s
           in if z = [] \<or> z = ''Z'' then Some t
              else (case (decimal (take 2 (drop 1 z)), decimal (drop 4 z)) of
                      (Some hh, Some mm) \<Rightarrow>
                        if length z = 6 \<and> (z ! 0 = CHR ''+'' \<or> z ! 0 = CHR ''-'')
                           \<and> z ! 3 = CHR '':'' \<and> hh < 24 \<and> mm < 60
                        then Some (if z ! 0 = CHR ''+''
                                   then t - (int hh * 3600000 + int mm * 60000)
                                   else t + (int hh * 3600000 + int mm * 60000))
                        else None
                    | _ \<Rightarrow> None)))"

definition offset_host :: host where
  "offset_host = utc_host\<lparr>read_date := offset_read_date\<rparr>"

text \<open>An item of the feed with one start element and one end element, for the examples.\<close>

definition feed_item :: "string \<Rightarrow> string \<Rightarrow> item" where
  "feed_item s e =
     \<lparr>startElements = [Some s], endElements = [Some e], item_title = Text ''Concert'',
      item_description = Text ''<p>Music</p>'', item_link = Text ''https://example.org/e''\<rparr>"

definition feed_event :: "string \<Rightarrow> string \<Rightarrow> CalendarEvent" where
  "feed_event s e =
     \<lparr>ev_start = Some s, ev_end = Some e, ev_title = Text ''Concert'',
      ev_description = Text ''<p>Music</p>'', ev_link = Text ''https://example.org/e''\<rparr>"

text \<open>
  An element with no data attribute, and a network that rejects the second request of a run
  and answers every other request with a feed that has no item.
\<close>

definition blank_element :: element where
  "blank_element =
     \<lparr>attr_begin = None, attr_end = None, attr_count = None, attr_tags = None,
      attr_categories = None, attr_show_year = None, innerHTML = ''Loading''\<rparr>"

definition failing_network :: network where
  "failing_network n url = (if n = 1 then Inl (Error ''Failed to fetch'') else Inr [])"

text \<open>
  The URL the loop requests for an element; whether the requests for a list of elements,
  made from the \<open>n\<close>-th on, are all answered; and what the iterations from the \<open>n\<close>-th on make
  of a list of elements when each runs to its end, with the effects they have.
\<close>

definition request_url :: "element \<Rightarrow> string" where
  "request_url el =
     appendToUrl CALENDAR_RSS_URL (data_tags (getDataAttr el)) (data_categories (getDataAttr el))"

fun answered_from :: "network \<Rightarrow> nat \<Rightarrow> element list \<Rightarrow> bool" where
  "answered_from net n [] = True"
| "answered_from net n (el # els) =
     ((case net n (request_url el) of Inl _ \<Rightarrow> False | Inr _ \<Rightarrow> True)
      \<and> answered_from net (Suc n) els)"

definition rendered :: "host \<Rightarrow> network \<Rightarrow> nat \<Rightarrow> element \<Rightarrow> element" where
  "rendered h net n el =
     (case snd (main_body h net n el) of Inr html \<Rightarrow> el\<lparr>innerHTML := html\<rparr> | Inl _ \<Rightarrow> el)"

fun rendered_from :: "host \<Rightarrow> network \<Rightarrow> nat \<Rightarrow> element list \<Rightarrow> element list" where
  "rendered_from h net n [] = []"
| "rendered_from h net n (el # els) = rendered h net n el # rendered_from h net (Suc n) els"

fun effects_from :: "host \<Rightarrow> network \<Rightarrow> nat \<Rightarrow> element list \<Rightarrow> effect list" where
  "effects_from h net n [] = []"
| "effects_from h net n (el # els) = fst (main_body h net n el) @ effects_from h net (Suc n) els"

text \<open>Two spaces in a row somewhere in a string.\<close>

fun has_double_space :: "string \<Rightarrow> bool" where
  "has_double_space [] = False"
| "has_double_space [a] = False"
| "has_double_space (a # b # rest) =
     ((a = CHR '' '' \<and> b = CHR '' '') \<or> has_double_space (b # rest))"

subsection \<open>The formatter and the request terms in the words of the specification\<close>

text \<open>
  The label of a range: the start's value, extended by a hyphen and the end's value only
  when the two differ.
\<close>

definition compact_label :: "string \<Rightarrow> string \<Rightarrow> string" where
  "compact_label a b = (if a = b then a else a @ ''-'' @ b)"

text \<open>
  The instants of an event: a start with no time component is taken at 00:00 of its day, an
  end with no time component at 23:59.
\<close>

definition start_instant :: "host \<Rightarrow> string \<Rightarrow> number" where
  "start_instant h es = Date_parse h (if contains_char CHR ''T'' es then es else es @ ''T00:00'')"

definition end_instant :: "host \<Rightarrow> string \<Rightarrow> number" where
  "end_instant h ee = Date_parse h (if contains_char CHR ''T'' ee then ee else ee @ ''T23:59'')"

text \<open>
  One event, formatted, as the text of the page: the date block with the month label and
  the day label, the year label in its \<open>span\<close> only when the year is shown, the title block
  with the link and the title, the time label in its \<open>div\<close> only when both the start and the
  end have a time component, and the description block with the sanitized description and
  the link.
\<close>

definition month_label :: "host \<Rightarrow> string \<Rightarrow> string \<Rightarrow> string" where
  "month_label h es ee =
     compact_label (toLocaleString (month_short h) (start_instant h es))
       (toLocaleString (month_short h) (end_instant h ee))"

definition day_label :: "host \<Rightarrow> string \<Rightarrow> string \<Rightarrow> string" where
  "day_label h es ee =
     compact_label (toLocaleString (day_numeric h) (start_instant h es))
       (toLocaleString (day_numeric h) (end_instant h ee))"

definition year_label :: "host \<Rightarrow> string \<Rightarrow> string \<Rightarrow> string" where
  "year_label h es ee =
     compact_label (toLocaleString (year_numeric h) (start_instant h es))
       (toLocaleString (year_numeric h) (end_instant h ee))"

definition time_label :: "host \<Rightarrow> string \<Rightarrow> string \<Rightarrow> string" where
  "time_label h es ee =
     toLocaleString (time_short h) (start_instant h es) @ '' - ''
     @ toLocaleString (time_short h) (end_instant h ee)"

definition format_event :: "host \<Rightarrow> bool \<Rightarrow> CalendarEvent \<Rightarrow> string" where
  \<open>format_event h showYear ev =
     (case (ev_start ev, ev_end ev) of
        (Some es, Some ee) \<Rightarrow>
          ''\<newline>                <div class="eventWrap columns col2">''
          @ ''\<newline>                    <div class="date">''
          @ ''\<newline>                        <div class="dateWrap">''
          @ ''<span class="month">'' @ month_label h es ee @ ''</span>''
          @ ''<span class="day">'' @ day_label h es ee @ ''</span>''
          @ ''\<newline>            ''
          @ (if showYear
             then ''\<newline>                            ''
                  @ ''<span class="year">'' @ year_label h es ee @ ''</span>''
                  @ ''\<newline>                ''
             else [])
          @ ''\<newline>                        </div>''
          @ ''\<newline>                    </div>''
          @ ''\<newline>                    <div class="eventDescription">''
          @ ''\<newline>                        <div class="title">''
          @ ''<a href="'' @ template_text (ev_link ev) @ ''">'' @ template_text (ev_title ev)
          @ ''</a></div>''
          @ ''\<newline>            ''
          @ (if contains_char CHR ''T'' es \<and> contains_char CHR ''T'' ee
             then ''\<newline>                        ''
                  @ ''<div class="time">'' @ time_label h es ee @ ''</div>''
                  @ ''\<newline>                ''
             else [])
          @ ''\<newline>                        <div class="description">''
          @ ''<span>'' @ removeTags (ev_description ev) @ ''</span></div>''
          @ ''\<newline>                        <div class="read-more">''
          @ ''<a href="'' @ template_text (ev_link ev) @ ''">Read more ''
          @ [CHR 0xE2, CHR 0x89, CHR 0xAB] @ ''</a></div>''
          @ ''\<newline>                    </div>''
          @ ''\<newline>                </div>''
          @ ''\<newline>            ''
      | _ \<Rightarrow> [])\<close>

text \<open>
  Spaces removed at the left end, at the right end and at both ends of a term; and the
  terms of a list in which the spaces next to each comma have been removed (the first term
  keeps its leading spaces and the last its trailing ones).
\<close>

definition lstrip :: "string \<Rightarrow> string" where
  "lstrip t = dropWhile (\<lambda>x. x = CHR '' '') t"

definition rstrip :: "string \<Rightarrow> string" where
  "rstrip t = rev (dropWhile (\<lambda>x. x = CHR '' '') (rev t))"

definition strip_spaces :: "string \<Rightarrow> string" where
  "strip_spaces t = rstrip (lstrip t)"

fun norm_tail :: "string list \<Rightarrow> string list" where
  "norm_tail [] = []"
| "norm_tail [t] = [lstrip t]"
| "norm_tail (t # u # us) = strip_spaces t # norm_tail (u # us)"

fun norm_terms :: "string list \<Rightarrow> string list" where
  "norm_terms [] = []"
| "norm_terms [t] = [t]"
| "norm_terms (t # u # us) = rstrip t # norm_tail (u # us)"

text \<open>
  The terms of the request: the tags string split at its commas, each space of a term
  replaced by \<open>+\<close>; the categories string trimmed and split at its commas, each term
  stripped of its surrounding spaces and then each space replaced by \<open>+\<close>.
\<close>

definition tag_terms :: "string option \<Rightarrow> string list" where
  "tag_terms tags =
     (case tags of
        None \<Rightarrow> []
      | Some t \<Rightarrow> map (replaceAll_char CHR '' '' CHR ''+'') (split_on CHR '','' t))"

definition category_terms :: "string option \<Rightarrow> string list" where
  "category_terms categories =
     (case categories of
        None \<Rightarrow> []
      | Some c \<Rightarrow>
          map (\<lambda>t. replaceAll_char CHR '' '' CHR ''+'' (strip_spaces t))
            (split_on CHR '','' (trim c)))"

section \<open>Properties\<close>

subsection \<open>Dates\<close>

lemma TimeClip_bounds: "TimeClip t = Num u \<Longrightarrow> min_instant \<le> u \<and> u \<le> max_instant"
  by (auto simp: TimeClip_def split: if_splits)

lemma Date_parse_bounds: "Date_parse h s = Num u \<Longrightarrow> min_instant \<le> u \<and> u \<le> max_instant"
  by (auto simp: Date_parse_def split: option.splits dest: TimeClip_bounds)

lemma utc_2025_01_05_start: "Date_parse utc_host ''2025-01-05T00:00'' = Num 1736035200000"
  by code_simp

lemma utc_2025_01_05_end: "Date_parse utc_host ''2025-01-05T23:59'' = Num 1736121540000"
  by code_simp

subsection \<open>Selection keeps only events with a start and an end\<close>

lemma set_insert_by: "set (insert_by cmp x xs) = insert x (set xs)"
  by (induction xs) auto

lemma set_Array_sort: "set (Array_sort cmp xs) = set xs"
  by (induction xs) (auto simp: Array_sort_def set_insert_by)

lemma set_Array_slice0: "set (Array_slice0 xs n) \<subseteq> set xs"
  by (auto simp: Array_slice0_def Let_def dest: in_set_takeD)

lemma collect_events_present:
  "ev \<in> set (snd (collect_events h b e doc)) \<Longrightarrow> ev_start ev \<noteq> None \<and> ev_end ev \<noteq> None"
proof (induction doc)
  case Nil
  then show ?case by simp
next
  case (Cons it its)
  then show ?case
    by (auto simp: eventWithinDateRange_def Let_def
        split: list.splits prod.splits option.splits if_splits)
qed

lemma getEvents_subset:
  "set (snd (getEvents h doc b e c)) \<subseteq> set (snd (collect_events h b e doc))"
proof -
  obtain fx events where ce: "collect_events h b e doc = (fx, events)"
    by (cases "collect_events h b e doc")
  have "set (snd (getEvents h doc b e c)) \<subseteq> set events"
    using set_Array_slice0 [of "Array_sort compare_start events"]
      set_Array_slice0 [of events]
    by (auto simp: getEvents_def ce Let_def set_Array_sort)
  then show ?thesis by (simp add: ce)
qed

lemma getHtml_loop_present:
  "\<forall>ev \<in> set events. ev_start ev \<noteq> None \<and> ev_end ev \<noteq> None \<Longrightarrow>
   \<exists>html. getHtml_loop h sy events acc = ([], Inr html)"
proof (induction events arbitrary: acc)
  case Nil
  then show ?case by simp
next
  case (Cons ev events)
  then obtain es ee where "ev_start ev = Some es" "ev_end ev = Some ee" by auto
  with Cons show ?case by simp
qed

lemma getHtml_present:
  assumes "\<forall>ev \<in> set events. ev_start ev \<noteq> None \<and> ev_end ev \<noteq> None"
  shows "\<exists>html. getHtml h events sy = ([], Inr html)"
proof -
  obtain html where
    \<open>getHtml_loop h sy events
       ''<div class="homeEvents row hasBackground"><div class="wrapper">'' = ([], Inr html)\<close>
    using getHtml_loop_present [OF assms] by blast
  then show ?thesis by (simp add: getHtml_def)
qed

subsection \<open>Tags, runs of spaces and trimming\<close>

lemma tag_match_not_lt: "c \<noteq> CHR ''<'' \<Longrightarrow> tag_match (c # s) = None"
  by (simp add: tag_match_def split: list.splits)

lemma replace_tags_text: "CHR ''<'' \<notin> set pre \<Longrightarrow> replace_tags (pre @ s) = pre @ replace_tags s"
  by (induction pre) (auto simp: tag_match_not_lt)

lemma tag_match_tag:
  "CHR ''>'' \<notin> set body \<Longrightarrow> tag_match (CHR ''<'' # c # body @ CHR ''>'' # rest) = Some rest"
proof -
  assume "CHR ''>'' \<notin> set body"
  then have "dropWhile (\<lambda>x. x \<noteq> CHR ''>'') (body @ CHR ''>'' # rest) = CHR ''>'' # rest"
    by (induction body) auto
  then show ?thesis by (simp add: tag_match_def)
qed

lemma replace_tags_tag:
  "CHR ''>'' \<notin> set body \<Longrightarrow>
   replace_tags (CHR ''<'' # c # body @ CHR ''>'' # rest) = CHR '' '' # replace_tags rest"
  by (simp add: tag_match_tag)

lemma collapse_spaces_Nil: "(collapse_spaces s = []) = (s = [])"
  by (induction s rule: collapse_spaces.induct) auto

lemma hd_collapse_spaces: "hd (collapse_spaces s) = hd s"
  by (induction s rule: collapse_spaces.induct) auto

lemma collapse_spaces_others:
  "filter (\<lambda>c. c \<noteq> CHR '' '') (collapse_spaces s) = filter (\<lambda>c. c \<noteq> CHR '' '') s"
proof (induction s rule: collapse_spaces.induct)
  case (3 a b rest)
  have "filter (\<lambda>c. c \<noteq> CHR '' '') (dropWhile (\<lambda>x. x = CHR '' '') rest)
          = filter (\<lambda>c. c \<noteq> CHR '' '') rest"
    by (induction rest) auto
  with 3 show ?case by auto
qed auto

lemma has_double_space_Cons:
  "has_double_space (a # xs) = ((xs \<noteq> [] \<and> a = CHR '' '' \<and> hd xs = CHR '' '') \<or> has_double_space xs)"
  by (cases xs) auto

lemma collapse_spaces_single: "\<not> has_double_space (collapse_spaces s)"
proof (induction s rule: collapse_spaces.induct)
  case (3 a b rest)
  show ?case
  proof (cases "a = CHR '' '' \<and> b = CHR '' ''")
    case True
    let ?d = "dropWhile (\<lambda>x. x = CHR '' '') rest"
    have "?d \<noteq> [] \<Longrightarrow> hd ?d \<noteq> CHR '' ''"
      using hd_dropWhile [of "\<lambda>x. x = CHR '' ''" rest] by simp
    with True 3 show ?thesis
      by (auto simp: has_double_space_Cons collapse_spaces_Nil hd_collapse_spaces)
  next
    case False
    with 3 show ?thesis
      by (auto simp: has_double_space_Cons collapse_spaces_Nil hd_collapse_spaces)
  qed
qed auto

lemma has_double_space_iff:
  "has_double_space s = (\<exists>u v. s = u @ CHR '' '' # CHR '' '' # v)"
proof (induction s rule: has_double_space.induct)
  case 1
  then show ?case by simp
next
  case (2 a)
  have "\<not> (\<exists>u v. [a] = u @ CHR '' '' # CHR '' '' # v)"
  proof
    assume "\<exists>u v. [a] = u @ CHR '' '' # CHR '' '' # v"
    then obtain u v where "[a] = u @ CHR '' '' # CHR '' '' # v" by blast
    then have "length [a] = length (u @ CHR '' '' # CHR '' '' # v)" by simp
    then show False by simp
  qed
  then show ?case by simp
next
  case (3 a b rest)
  show ?case
  proof
    assume "has_double_space (a # b # rest)"
    then consider "a = CHR '' '' \<and> b = CHR '' ''" | "has_double_space (b # rest)" by auto
    then show "\<exists>u v. a # b # rest = u @ CHR '' '' # CHR '' '' # v"
    proof cases
      case 1
      then have "a # b # rest = [] @ CHR '' '' # CHR '' '' # rest" by simp
      then show ?thesis by blast
    next
      case 2
      with "3.IH" obtain u v where "b # rest = u @ CHR '' '' # CHR '' '' # v" by blast
      then have "a # b # rest = (a # u) @ CHR '' '' # CHR '' '' # v" by simp
      then show ?thesis by blast
    qed
  next
    assume "\<exists>u v. a # b # rest = u @ CHR '' '' # CHR '' '' # v"
    then obtain u v where uv: "a # b # rest = u @ CHR '' '' # CHR '' '' # v" by blast
    show "has_double_space (a # b # rest)"
    proof (cases u)
      case Nil
      with uv show ?thesis by simp
    next
      case (Cons x u')
      with uv have "b # rest = u' @ CHR '' '' # CHR '' '' # v" by simp
      then have "has_double_space (b # rest)" using "3.IH" by blast
      then show ?thesis by simp
    qed
  qed
qed

lemma trim_infix: "\<exists>a b. s = a @ trim s @ b"
proof -
  let ?d = "dropWhile is_ws s"
  have 1: "s = takeWhile is_ws s @ ?d" by simp
  have "rev (takeWhile is_ws (rev ?d) @ dropWhile is_ws (rev ?d))
          = rev (dropWhile is_ws (rev ?d)) @ rev (takeWhile is_ws (rev ?d))"
    by (simp only: rev_append)
  then have "rev (rev ?d) = rev (dropWhile is_ws (rev ?d)) @ rev (takeWhile is_ws (rev ?d))"
    by (simp only: takeWhile_dropWhile_id)
  then have 2: "?d = trim s @ rev (takeWhile is_ws (rev ?d))"
    by (simp only: rev_rev_ident trim_def)
  have "s = takeWhile is_ws s @ trim s @ rev (takeWhile is_ws (rev ?d))"
    using 1 2 by metis
  then show ?thesis by blast
qed

lemma trim_keeps_single:
  assumes "\<not> (\<exists>u v. s = u @ CHR '' '' # CHR '' '' # v)"
  shows "\<not> (\<exists>u v. trim s = u @ CHR '' '' # CHR '' '' # v)"
proof
  assume "\<exists>u v. trim s = u @ CHR '' '' # CHR '' '' # v"
  then obtain u v where t: "trim s = u @ CHR '' '' # CHR '' '' # v" by blast
  obtain a b where "s = a @ trim s @ b" using trim_infix by blast
  then have "s = (a @ u) @ CHR '' '' # CHR '' '' # (v @ b)" by (simp add: t)
  with assms show False by blast
qed

lemma trim_ends: "trim s = [] \<or> (\<not> is_ws (hd (trim s)) \<and> \<not> is_ws (last (trim s)))"
proof (cases "trim s = []")
  case True
  then show ?thesis by simp
next
  case False
  let ?d = "dropWhile is_ws s"
  let ?e = "dropWhile is_ws (rev ?d)"
  have e: "?e \<noteq> []" using False by (simp add: trim_def)
  have d: "?d \<noteq> []"
  proof
    assume "?d = []"
    then have "?e = []" by (simp only: rev.simps dropWhile.simps)
    with e show False by blast
  qed
  have "last (trim s) = hd ?e" using e by (simp add: trim_def last_rev)
  moreover have "\<not> is_ws (hd ?e)" using e hd_dropWhile by blast
  moreover have "hd (trim s) = last ?e" using e by (simp add: trim_def hd_rev)
  moreover have "last ?e = last (rev ?d)"
    using e by (metis last_appendR takeWhile_dropWhile_id)
  moreover have "last (rev ?d) = hd ?d" using d by (simp add: last_rev)
  moreover have "\<not> is_ws (hd ?d)" using d hd_dropWhile by blast
  ultimately show ?thesis by simp
qed

lemma collapse_spaces_no_space: "CHR '' '' \<notin> set w \<Longrightarrow> collapse_spaces w = w"
  by (induction w rule: collapse_spaces.induct) auto

lemma dropWhile_spaces_append:
  "rest \<noteq> [] \<Longrightarrow> last rest \<noteq> CHR '' '' \<Longrightarrow>
   dropWhile (\<lambda>x. x = CHR '' '') (rest @ w) = dropWhile (\<lambda>x. x = CHR '' '') rest @ w
   \<and> dropWhile (\<lambda>x. x = CHR '' '') rest \<noteq> []
   \<and> last (dropWhile (\<lambda>x. x = CHR '' '') rest) \<noteq> CHR '' ''"
  by (induction rest) (auto split: if_splits)

lemma collapse_spaces_append:
  "u = [] \<or> last u \<noteq> CHR '' '' \<Longrightarrow> collapse_spaces (u @ w) = collapse_spaces u @ collapse_spaces w"
proof (induction u rule: collapse_spaces.induct)
  case 1
  then show ?case by simp
next
  case (2 a)
  then show ?case by (cases w) auto
next
  case (3 a b rest)
  show ?case
  proof (cases "a = CHR '' '' \<and> b = CHR '' ''")
    case True
    with "3.prems" have r: "rest \<noteq> []" "last rest \<noteq> CHR '' ''" by (auto split: if_splits)
    note d = dropWhile_spaces_append [OF r, of w]
    have "collapse_spaces (dropWhile (\<lambda>x. x = CHR '' '') rest @ w)
            = collapse_spaces (dropWhile (\<lambda>x. x = CHR '' '') rest) @ collapse_spaces w"
      using "3.IH"(1) True d by blast
    with True d show ?thesis by simp
  next
    case False
    with "3.prems" have "collapse_spaces ((b # rest) @ w) = collapse_spaces (b # rest) @ collapse_spaces w"
      using "3.IH"(2) by (auto split: if_splits)
    with False show ?thesis by auto
  qed
qed

lemma collapse_spaces_run_head:
  "v = [] \<or> hd v \<noteq> CHR '' '' \<Longrightarrow>
   collapse_spaces (replicate (Suc n) (CHR '' '') @ v) = CHR '' '' # collapse_spaces v"
proof (cases n)
  case 0
  assume "v = [] \<or> hd v \<noteq> CHR '' ''"
  with 0 show ?thesis by (cases v) auto
next
  case (Suc m)
  assume v: "v = [] \<or> hd v \<noteq> CHR '' ''"
  have "dropWhile (\<lambda>x. x = CHR '' '') (replicate m (CHR '' '') @ v) = v"
    using v by (induction m) (cases v; simp)+
  with Suc show ?thesis by simp
qed

lemma collapse_spaces_run:
  assumes "u = [] \<or> last u \<noteq> CHR '' ''" and "v = [] \<or> hd v \<noteq> CHR '' ''"
  shows "collapse_spaces (u @ replicate (Suc n) (CHR '' '') @ v)
           = collapse_spaces u @ CHR '' '' # collapse_spaces v"
  using collapse_spaces_append [OF assms(1)] collapse_spaces_run_head [OF assms(2)]
  by (simp del: replicate_Suc)

subsection \<open>The loops over the items and over the elements\<close>

lemma collect_events_append:
  "collect_events h b e (xs @ ys)
     = (fst (collect_events h b e xs) @ fst (collect_events h b e ys),
        snd (collect_events h b e xs) @ snd (collect_events h b e ys))"
proof (induction xs)
  case Nil
  then show ?case by simp
next
  case (Cons it its)
  then show ?case
    by (simp add: Let_def split: list.splits prod.splits)
qed

lemma unreadable_not_within:
  assumes "Date_parse h (if contains_char CHR ''T'' s then s else s @ ''T00:00'') = NaN
           \<or> Date_parse h (if contains_char CHR ''T'' t then t else t @ ''T23:59'') = NaN"
  shows "eventWithinDateRange h (Some s) (Some t) b e = ([], False)"
  using assms
  by (cases "contains_char CHR ''T'' s"; cases "contains_char CHR ''T'' t")
    (auto simp: eventWithinDateRange_def Let_def)

lemma main_body_fetch_fails:
  "net n (request_url el) = Inl reason \<Longrightarrow> main_body h net n el = ([], Inl reason)"
  by (simp add: main_body_def request_url_def fetchXmlDoc_def Let_def)

lemma main_body_fetch_succeeds:
  assumes "net n (request_url el) = Inr doc"
  shows "\<exists>html. snd (main_body h net n el) = Inr html"
proof -
  let ?d = "getDataAttr el"
  obtain fx events where ge: "getEvents h doc (data_begin ?d) (data_end ?d) (data_count ?d) = (fx, events)"
    by (cases "getEvents h doc (data_begin ?d) (data_end ?d) (data_count ?d)")
  have "\<forall>ev \<in> set events. ev_start ev \<noteq> None \<and> ev_end ev \<noteq> None"
    using getEvents_subset [of h doc "data_begin ?d" "data_end ?d" "data_count ?d"]
      collect_events_present [of _ h "data_begin ?d" "data_end ?d" doc]
    by (auto simp: ge)
  then obtain html where "getHtml h events (data_showYear ?d) = ([], Inr html)"
    using getHtml_present by blast
  then show ?thesis
    using assms by (simp add: main_body_def request_url_def fetchXmlDoc_def Let_def ge)
qed

lemma main_loop_stops:
  assumes ok: "answered_from net n pre"
    and bad: "net (n + length pre) (request_url el) = Inl reason"
  shows "main_loop h net n (pre @ el # post)
           = (effects_from h net n pre, rendered_from h net n pre @ el # post, Some reason)"
  using ok bad
proof (induction pre arbitrary: n)
  case Nil
  then show ?case using main_body_fetch_fails [of net n el reason h] by simp
next
  case (Cons x pre)
  from Cons.prems(1) obtain doc where "net n (request_url x) = Inr doc"
    by (cases "net n (request_url x)") auto
  then obtain html where html: "snd (main_body h net n x) = Inr html"
    using main_body_fetch_succeeds [of net n x doc h] by blast
  then obtain fx where mb: "main_body h net n x = (fx, Inr html)"
    by (cases "main_body h net n x") auto
  have "main_loop h net (Suc n) (pre @ el # post)
          = (effects_from h net (Suc n) pre, rendered_from h net (Suc n) pre @ el # post,
             Some reason)"
    using Cons.prems by (intro Cons.IH) simp_all
  then show ?case by (simp add: mb rendered_def)
qed

subsection \<open>Sorting and truncating\<close>

lemma compare_start_le: "(compare_start a b \<le> 0) = (ev_start a \<le> ev_start b)"
  by (cases "ev_start a"; cases "ev_start b") (auto simp: compare_start_def)

lemma insert_by_compare_start: "insert_by compare_start x xs = insort_key ev_start x xs"
  by (induction xs) (auto simp: compare_start_le)

lemma Array_sort_compare_start: "Array_sort compare_start xs = sort_key ev_start xs"
  by (induction xs) (auto simp: Array_sort_def sort_key_def insert_by_compare_start)

lemma Array_slice0_prefix: "\<exists>k. Array_slice0 xs n = take k xs"
  by (auto simp: Array_slice0_def Let_def)

lemma sort_key_short: "length xs \<le> 1 \<Longrightarrow> sort_key f xs = xs"
  by (cases xs) (auto simp: sort_key_def)

lemma getEvents_prefix_sorted:
  "\<exists>k. snd (getEvents h doc b e c) = take k (sort_key ev_start (snd (collect_events h b e doc)))"
proof -
  obtain fx events where ce: "collect_events h b e doc = (fx, events)"
    by (cases "collect_events h b e doc")
  show ?thesis
  proof (cases "length events > 1")
    case True
    then show ?thesis
      using Array_slice0_prefix [of "sort_key ev_start events"]
      by (simp add: getEvents_def ce Let_def Array_sort_compare_start)
  next
    case False
    then have "sort_key ev_start events = events" by (simp add: sort_key_short)
    with False show ?thesis
      using Array_slice0_prefix [of events]
      by (auto simp: getEvents_def ce Let_def)
  qed
qed

lemma clamp_min: "(if a < n then a else n) = min a (n :: int)"
  by auto

lemma getEvents_unfold:
  assumes ce: "collect_events h b e doc = (fx, events)"
  shows "getEvents h doc b e c
           = (fx, Array_slice0 (sort_key ev_start events)
                    (min (int (length events))
                       (case c of None \<Rightarrow> 2
                        | Some s \<Rightarrow> (case parseInt s of NaN \<Rightarrow> 2 | Num m \<Rightarrow> m))))"
proof -
  consider "events = []" | "length events = 1" | "length events > 1"
    by (cases events) (auto simp: less_Suc_eq_0_disj)
  then show ?thesis
  proof cases
    case 1
    then show ?thesis by (simp add: getEvents_def ce Let_def Array_slice0_def sort_key_def)
  next
    case 2
    then have "sort_key ev_start events = events" by (simp add: sort_key_short)
    with 2 show ?thesis
      by (cases c) (auto simp: getEvents_def ce Let_def clamp_min split: number.splits)
  next
    case 3
    then show ?thesis
      by (cases c) (auto simp: getEvents_def ce Let_def clamp_min Array_sort_compare_start
          split: number.splits)
  qed
qed

lemma getEvents_count:
  assumes ce: "collect_events h b e doc = (fx, events)"
    and n: "(c = None \<and> n = 2) \<or> (\<exists>s. c = Some s \<and> parseInt s = NaN \<and> n = 2)
            \<or> (\<exists>s. c = Some s \<and> parseInt s = Num n \<and> 0 \<le> n)"
  shows "getEvents h doc b e c = (fx, take (nat n) (sort_key ev_start events))"
proof -
  have n0: "0 \<le> n" using n by auto
  have num: "(case c of None \<Rightarrow> 2 | Some s \<Rightarrow> (case parseInt s of NaN \<Rightarrow> 2 | Num m \<Rightarrow> m)) = n"
    using n by auto
  have "Array_slice0 (sort_key ev_start events) (min (int (length events)) n)
          = take (nat n) (sort_key ev_start events)"
    using n0 by (auto simp: Array_slice0_def Let_def min_def)
  then show ?thesis by (simp add: getEvents_unfold [OF ce] num)
qed

lemma unbounded_within:
  assumes "Date_parse h (if contains_char CHR ''T'' s then s else s @ ''T00:00'') \<noteq> NaN"
    and "Date_parse h (if contains_char CHR ''T'' t then t else t @ ''T23:59'') \<noteq> NaN"
  shows "eventWithinDateRange h (Some s) (Some t) None None = ([], True)"
proof -
  obtain x where x: "Date_parse h (if contains_char CHR ''T'' s then s else s @ ''T00:00'') = Num x"
    using assms(1) by (cases "Date_parse h (if contains_char CHR ''T'' s then s else s @ ''T00:00'')") auto
  obtain y where y: "Date_parse h (if contains_char CHR ''T'' t then t else t @ ''T23:59'') = Num y"
    using assms(2) by (cases "Date_parse h (if contains_char CHR ''T'' t then t else t @ ''T23:59'')") auto
  have "map_option (Date_parse h) None = map_option Num None" by simp
  from Date_parse_bounds [OF x] Date_parse_bounds [OF y] x y
  show ?thesis
    by (cases "contains_char CHR ''T'' s"; cases "contains_char CHR ''T'' t")
      (auto simp: eventWithinDateRange_def Let_def MIN_SAFE_INTEGER_def MAX_SAFE_INTEGER_def
        min_instant_def max_instant_def)
qed

lemma sort_three:
  "sort_key ev_start [feed_event ''2025-01-10'' ''2025-01-10'', feed_event ''2025-01-05'' ''2025-01-05'',
      feed_event ''2025-01-20'' ''2025-01-20'']
   = [feed_event ''2025-01-05'' ''2025-01-05'', feed_event ''2025-01-10'' ''2025-01-10'',
      feed_event ''2025-01-20'' ''2025-01-20'']"
  by (simp add: sort_key_def feed_event_def)

subsection \<open>The loop of the formatter\<close>

lemma compact_label_code: "(if a \<noteq> b then a @ ''-'' @ b else a) = compact_label a b"
  by (simp add: compact_label_def)

lemma normalized_start: "(if \<not> contains_char CHR ''T'' es then es @ ''T00:00'' else es)
   = (if contains_char CHR ''T'' es then es else es @ ''T00:00'')"
  by simp

lemma normalized_end: "(if \<not> contains_char CHR ''T'' ee then ee @ ''T23:59'' else ee)
   = (if contains_char CHR ''T'' ee then ee else ee @ ''T23:59'')"
  by simp

lemma getHtml_body_format:
  assumes "ev_start ev = Some es" and "ev_end ev = Some ee"
  shows "getHtml_body h sy ev es ee acc = acc @ format_event h (sy = Some ''true'') ev"
proof -
  have "getHtml_body h sy ev es ee acc
          = acc @ date_template
            (compact_label (toLocaleString (month_short h) (start_instant h es))
               (toLocaleString (month_short h) (end_instant h ee)))
            (compact_label (toLocaleString (day_numeric h) (start_instant h es))
               (toLocaleString (day_numeric h) (end_instant h ee)))
          @ (if sy = Some ''true''
             then year_template
                    (compact_label (toLocaleString (year_numeric h) (start_instant h es))
                       (toLocaleString (year_numeric h) (end_instant h ee)))
             else [])
          @ title_template (template_text (ev_link ev)) (template_text (ev_title ev))
          @ (if contains_char CHR ''T'' es \<and> contains_char CHR ''T'' ee
             then time_template
                    (toLocaleString (time_short h) (start_instant h es) @ '' - ''
                     @ toLocaleString (time_short h) (end_instant h ee))
             else [])
          @ description_template (removeTags (ev_description ev)) (template_text (ev_link ev))"
    unfolding getHtml_body_def Let_def compact_label_code normalized_start normalized_end
      start_instant_def [symmetric] end_instant_def [symmetric]
    by (cases "sy = Some ''true''"; cases "contains_char CHR ''T'' es \<and> contains_char CHR ''T'' ee")
      auto
  then show ?thesis
    by (simp add: format_event_def assms month_label_def day_label_def year_label_def
        time_label_def date_template_def year_template_def title_template_def
        time_template_def description_template_def much_greater_than_def)
qed

lemma getHtml_loop_format:
  "\<forall>ev \<in> set events. ev_start ev \<noteq> None \<and> ev_end ev \<noteq> None \<Longrightarrow>
   getHtml_loop h sy events acc
     = ([], Inr (acc @ concat (map (format_event h (sy = Some ''true'')) events)))"
proof (induction events arbitrary: acc)
  case Nil
  then show ?case by simp
next
  case (Cons ev events)
  then obtain es ee where se: "ev_start ev = Some es" "ev_end ev = Some ee" by auto
  have "getHtml_loop h sy (ev # events) acc
          = getHtml_loop h sy events (getHtml_body h sy ev es ee acc)"
    by (simp add: se)
  also have "\<dots> = ([], Inr (getHtml_body h sy ev es ee acc
                        @ concat (map (format_event h (sy = Some ''true'')) events)))"
    using Cons by simp
  finally show ?case by (simp add: getHtml_body_format [OF se])
qed

subsection \<open>Survivors have readable dates\<close>

lemma within_readable:
  assumes "snd (eventWithinDateRange h (Some s) (Some t) b e)"
  shows "start_instant h s \<noteq> NaN \<and> end_instant h t \<noteq> NaN"
proof -
  have "num_le (start_instant h s)
          (case e of Some x \<Rightarrow> Date_parse h x | None \<Rightarrow> MAX_SAFE_INTEGER)
        \<and> num_le (case b of Some x \<Rightarrow> Date_parse h x | None \<Rightarrow> MIN_SAFE_INTEGER)
          (end_instant h t)"
    using assms
    by (simp add: eventWithinDateRange_def Let_def start_instant_def end_instant_def
        normalized_start normalized_end)
  then show ?thesis
    by (cases "start_instant h s"; cases "end_instant h t") auto
qed

lemma collect_events_readable:
  "ev \<in> set (snd (collect_events h b e doc)) \<Longrightarrow>
   \<exists>s t. ev_start ev = Some s \<and> ev_end ev = Some t
     \<and> start_instant h s \<noteq> NaN \<and> end_instant h t \<noteq> NaN"
proof (induction doc)
  case Nil
  then show ?case by simp
next
  case (Cons it its)
  show ?case
  proof (cases "ev \<in> set (snd (collect_events h b e its))")
    case True
    then show ?thesis by (rule Cons.IH)
  next
    case False
    with Cons.prems obtain s0 ss e0 es where
      s: "startElements it = s0 # ss" and t: "endElements it = e0 # es"
      and w: "snd (eventWithinDateRange h s0 e0 b e)"
      and ev: "ev_start ev = s0" "ev_end ev = e0"
      by (auto simp: Let_def split: list.splits prod.splits if_splits)
    from w obtain x y where xy: "s0 = Some x" "e0 = Some y"
      by (cases s0; cases e0) (auto simp: eventWithinDateRange_def)
    with w have "start_instant h x \<noteq> NaN \<and> end_instant h y \<noteq> NaN"
      using within_readable by blast
    with ev xy show ?thesis by blast
  qed
qed

subsection \<open>Splitting at commas\<close>

lemma split_on_not_Nil: "split_on sep s \<noteq> []"
  by (induction s) auto

lemma split_on_no_sep: "sep \<notin> set s \<Longrightarrow> split_on sep s = [s]"
  by (induction s) auto

lemma split_on_append: "sep \<notin> set p \<Longrightarrow> split_on sep (p @ sep # r) = p # split_on sep r"
  by (induction p) auto

lemma split_on_map:
  assumes "\<And>c. (f c = sep) = (c = sep)"
  shows "split_on sep (map f s) = map (map f) (split_on sep s)"
proof (induction s)
  case Nil
  then show ?case by simp
next
  case (Cons c cs)
  then show ?case
    using split_on_not_Nil [of sep cs] assms
    by (cases "split_on sep cs") (auto simp: hd_map map_tl)
qed

lemma split_on_replaceAll:
  "split_on CHR '','' (replaceAll_char CHR '' '' CHR ''+'' s)
     = map (replaceAll_char CHR '' '' CHR ''+'') (split_on CHR '','' s)"
proof -
  have "split_on CHR '','' (map (\<lambda>c. if c = CHR '' '' then CHR ''+'' else c) s)
          = map (map (\<lambda>c. if c = CHR '' '' then CHR ''+'' else c)) (split_on CHR '','' s)"
    by (rule split_on_map) auto
  then show ?thesis
    by (simp add: replaceAll_char_def [abs_def])
qed

lemma foldl_append_terms:
  "foldl (\<lambda>u t. u @ p @ t) url ts = url @ concat (map (\<lambda>t. p @ t) ts)"
  by (induction ts arbitrary: url) auto

lemma split_on_lstrip:
  "split_on CHR '','' (dropWhile (\<lambda>x. x = CHR '' '') r)
     = lstrip (hd (split_on CHR '','' r)) # tl (split_on CHR '','' r)"
proof (induction r)
  case Nil
  then show ?case by (simp add: lstrip_def)
next
  case (Cons c cs)
  then show ?case
    using split_on_not_Nil [of "CHR '',''" cs]
    by (auto simp: lstrip_def)
qed

lemma rstrip_spaces: "\<forall>x \<in> set t. x = CHR '' '' \<Longrightarrow> rstrip t = []"
  by (simp add: rstrip_def)

lemma rstrip_Cons:
  "c \<noteq> CHR '' '' \<or> lstrip t \<noteq> [] \<Longrightarrow> rstrip (c # t) = c # rstrip t"
proof -
  assume a: "c \<noteq> CHR '' '' \<or> lstrip t \<noteq> []"
  show ?thesis
  proof (cases "\<forall>x \<in> set t. x = CHR '' ''")
    case True
    then have "lstrip t = []" by (simp add: lstrip_def)
    with a have c: "c \<noteq> CHR '' ''" by blast
    have "dropWhile (\<lambda>x. x = CHR '' '') (rev t @ [c]) = dropWhile (\<lambda>x. x = CHR '' '') [c]"
      by (rule dropWhile_append2) (use True in auto)
    then have "dropWhile (\<lambda>x. x = CHR '' '') (rev t @ [c]) = [c]"
      using c by simp
    with True show ?thesis by (simp add: rstrip_def)
  next
    case False
    then obtain x where "x \<in> set (rev t)" "x \<noteq> CHR '' ''" by auto
    then have "dropWhile (\<lambda>x. x = CHR '' '') (rev t @ [c])
                 = dropWhile (\<lambda>x. x = CHR '' '') (rev t) @ [c]"
      by (rule dropWhile_append1)
    then show ?thesis by (simp add: rstrip_def)
  qed
qed

lemma norm_terms_lstrip: "norm_terms (lstrip t # ts) = norm_tail (t # ts)"
  by (cases ts) (simp_all add: strip_spaces_def)

lemma norm_terms_Cons:
  assumes "ts = [] \<or> c \<noteq> CHR '' '' \<or> lstrip t \<noteq> []"
  shows "norm_terms ((c # t) # ts) = (c # hd (norm_terms (t # ts))) # tl (norm_terms (t # ts))"
  using assms by (cases ts) (auto simp: rstrip_Cons)

lemma spaces_no_comma: "\<forall>x \<in> set xs. x = CHR '' '' \<Longrightarrow> CHR '','' \<notin> set xs"
proof
  assume a: "\<forall>x \<in> set xs. x = CHR '' ''" and m: "CHR '','' \<in> set xs"
  from a m have "CHR '','' = CHR '' ''" by (rule bspec)
  then show False by simp
qed

lemma split_normalize_commas:
  "split_on CHR '','' (normalize_commas s) = norm_terms (split_on CHR '','' s)"
proof (induction s rule: normalize_commas.induct)
  case 1
  then show ?case by simp
next
  case (2 c cs)
  let ?d = "dropWhile (\<lambda>x. x = CHR '' '') (c # cs)"
  show ?case
  proof (cases ?d)
    case Nil
    then have spaces: "\<forall>x \<in> set (c # cs). x = CHR '' ''" by (auto split: if_splits)
    have c: "c = CHR '' ''"
      using spaces list.set_intros(1) [of c cs] by (rule bspec)
    have "\<forall>x \<in> set cs. x = CHR '' ''"
      using spaces by (simp only: list.set ball_simps) blast
    then have nc: "CHR '','' \<notin> set cs" by (rule spaces_no_comma)
    have "split_on CHR '','' (normalize_commas cs) = norm_terms (split_on CHR '','' cs)"
      using "2.IH"(1) Nil by blast
    then have "split_on CHR '','' (normalize_commas cs) = [cs]"
      by (simp add: split_on_no_sep [OF nc])
    moreover have "normalize_commas (c # cs) = c # normalize_commas cs"
      by (simp only: normalize_commas.simps Nil list.case)
    ultimately show ?thesis
      using c by (simp add: split_on_no_sep [OF nc])
  next
    case (Cons x rest)
    show ?thesis
    proof (cases "x = CHR '',''")
      case True
      let ?sps = "takeWhile (\<lambda>x. x = CHR '' '') (c # cs)"
      have dec: "c # cs = ?sps @ CHR '','' # rest"
        using Cons True takeWhile_dropWhile_id [of "\<lambda>x. x = CHR '' ''" "c # cs"] by simp
      have sps: "\<forall>y \<in> set ?sps. y = CHR '' ''" by (auto dest: set_takeWhileD)
      then have nosep: "CHR '','' \<notin> set ?sps" by (rule spaces_no_comma)
      have ih: "split_on CHR '','' (normalize_commas (dropWhile (\<lambda>x. x = CHR '' '') rest))
                  = norm_terms (split_on CHR '','' (dropWhile (\<lambda>x. x = CHR '' '') rest))"
        using "2.IH"(2) Cons True by blast
      have n: "normalize_commas (c # cs)
                 = CHR '','' # normalize_commas (dropWhile (\<lambda>x. x = CHR '' '') rest)"
        by (simp only: normalize_commas.simps Cons list.case True simp_thms if_True)
      obtain t ts where S: "split_on CHR '','' rest = t # ts"
        using split_on_not_Nil [of "CHR '',''" rest] by (cases "split_on CHR '','' rest") auto
      have lhs: "split_on CHR '','' (normalize_commas (c # cs)) = [] # norm_tail (t # ts)"
        by (simp add: n ih split_on_lstrip S norm_terms_lstrip del: normalize_commas.simps)
      have "split_on CHR '','' (?sps @ CHR '','' # rest) = ?sps # split_on CHR '','' rest"
        by (rule split_on_append [OF nosep])
      then have "split_on CHR '','' (c # cs) = ?sps # split_on CHR '','' rest"
        by (simp only: dec [symmetric])
      then have whole: "split_on CHR '','' (c # cs) = ?sps # t # ts"
        by (simp only: S)
      have rhs: "norm_terms (split_on CHR '','' (c # cs)) = [] # norm_tail (t # ts)"
        by (simp only: whole norm_terms.simps rstrip_spaces [OF sps])
      show ?thesis by (simp only: lhs rhs)
    next
      case False
      have x: "x \<noteq> CHR '' ''"
        using Cons hd_dropWhile [of "\<lambda>x. x = CHR '' ''" "c # cs"] by auto
      have c: "c \<noteq> CHR '',''"
        using Cons False x by (cases "c = CHR '' ''") auto
      have ih: "split_on CHR '','' (normalize_commas cs) = norm_terms (split_on CHR '','' cs)"
        using "2.IH"(3) Cons False by blast
      have n: "normalize_commas (c # cs) = c # normalize_commas cs"
        by (simp only: normalize_commas.simps Cons list.case False simp_thms if_False)
      obtain t ts where S: "split_on CHR '','' cs = t # ts"
        using split_on_not_Nil [of "CHR '',''" cs] by (cases "split_on CHR '','' cs") auto
      have cond: "ts = [] \<or> c \<noteq> CHR '' '' \<or> lstrip t \<noteq> []"
      proof (cases "c = CHR '' ''")
        case True
        with Cons have "dropWhile (\<lambda>x. x = CHR '' '') cs = x # rest" by simp
        then have "split_on CHR '','' (x # rest) = lstrip t # ts"
          using split_on_lstrip [of cs] S by simp
        with False have "lstrip t \<noteq> []" by auto
        then show ?thesis by blast
      next
        case False
        then show ?thesis by blast
      qed
      have "split_on CHR '','' (normalize_commas (c # cs))
              = (c # hd (norm_terms (t # ts))) # tl (norm_terms (t # ts))"
        using c by (simp add: n ih S del: normalize_commas.simps)
      also have "\<dots> = norm_terms ((c # t) # ts)"
        using norm_terms_Cons [OF cond] by simp
      also have "\<dots> = norm_terms (split_on CHR '','' (c # cs))"
        using c by (simp add: S)
      finally show ?thesis .
    qed
  qed
qed

lemma split_on_singleton: "split_on sep s = [t] \<Longrightarrow> t = s"
proof (induction s arbitrary: t)
  case Nil
  then show ?case by simp
next
  case (Cons c cs)
  show ?case
  proof (cases "c = sep")
    case True
    with Cons.prems show ?thesis using split_on_not_Nil [of sep cs] by simp
  next
    case False
    with Cons.prems have t: "t = c # hd (split_on sep cs)" and e: "tl (split_on sep cs) = []"
      by auto
    from e have "split_on sep cs = [hd (split_on sep cs)]"
      using split_on_not_Nil [of sep cs] by (cases "split_on sep cs") auto
    then have "hd (split_on sep cs) = cs" by (rule Cons.IH)
    with t show ?thesis by simp
  qed
qed

lemma first_term_no_leading_space:
  "s = [] \<or> hd s \<noteq> CHR '' '' \<Longrightarrow> lstrip (hd (split_on CHR '','' s)) = hd (split_on CHR '','' s)"
  by (cases s) (auto simp: lstrip_def)

lemma last_term_no_trailing_space:
  "s = [] \<or> last s \<noteq> CHR '' '' \<Longrightarrow>
   last (split_on CHR '','' s) = [] \<or> last (last (split_on CHR '','' s)) \<noteq> CHR '' ''"
proof (induction s)
  case Nil
  then show ?case by simp
next
  case (Cons c cs)
  let ?S = "split_on CHR '','' cs"
  have S: "?S \<noteq> []" by (rule split_on_not_Nil)
  show ?case
  proof (cases "cs = []")
    case True
    with Cons.prems show ?thesis by auto
  next
    case False
    with Cons.prems have "last cs \<noteq> CHR '' ''" by simp
    with Cons.IH have ih: "last ?S = [] \<or> last (last ?S) \<noteq> CHR '' ''" by blast
    show ?thesis
    proof (cases "c = CHR '',''")
      case True
      with ih S show ?thesis by simp
    next
      case c: False
      show ?thesis
      proof (cases "tl ?S = []")
        case True
        with S have "?S = [hd ?S]" by (cases ?S) auto
        then have "hd ?S = cs" by (rule split_on_singleton)
        with True c False Cons.prems show ?thesis by simp
      next
        case False
        then have "last ((c # hd ?S) # tl ?S) = last ?S"
          using S by (cases ?S) auto
        with c ih show ?thesis by simp
      qed
    qed
  qed
qed

lemma rstrip_id: "t = [] \<or> last t \<noteq> CHR '' '' \<Longrightarrow> rstrip t = t"
proof (cases "t = []")
  case True
  then show ?thesis by (simp add: rstrip_def)
next
  case False
  assume "t = [] \<or> last t \<noteq> CHR '' ''"
  with False have "hd (rev t) \<noteq> CHR '' ''" by (simp add: hd_rev)
  with False have "dropWhile (\<lambda>x. x = CHR '' '') (rev t) = rev t"
    by (cases "rev t") auto
  then show ?thesis by (simp add: rstrip_def)
qed

lemma lstrip_keeps_end:
  "t = [] \<or> last t \<noteq> CHR '' '' \<Longrightarrow> lstrip t = [] \<or> last (lstrip t) \<noteq> CHR '' ''"
proof -
  assume a: "t = [] \<or> last t \<noteq> CHR '' ''"
  show ?thesis
  proof (cases "lstrip t = []")
    case True
    then show ?thesis by blast
  next
    case False
    have "t = takeWhile (\<lambda>x. x = CHR '' '') t @ lstrip t" by (simp add: lstrip_def)
    then have "last t = last (takeWhile (\<lambda>x. x = CHR '' '') t @ lstrip t)" by simp
    also have "\<dots> = last (lstrip t)" using False by (rule last_appendR)
    finally have "last (lstrip t) = last t" by simp
    moreover have "t \<noteq> []" using False by (auto simp: lstrip_def)
    ultimately show ?thesis using a by simp
  qed
qed

lemma norm_tail_strip:
  "ts = [] \<or> last ts = [] \<or> last (last ts) \<noteq> CHR '' '' \<Longrightarrow> norm_tail ts = map strip_spaces ts"
proof (induction ts rule: norm_tail.induct)
  case 1
  then show ?case by simp
next
  case (2 t)
  then have "t = [] \<or> last t \<noteq> CHR '' ''" by simp
  then have "rstrip (lstrip t) = lstrip t" by (intro rstrip_id lstrip_keeps_end)
  then show ?case by (simp add: strip_spaces_def)
next
  case (3 t u us)
  then show ?case by simp
qed

lemma norm_terms_strip:
  assumes "ts \<noteq> []" and "lstrip (hd ts) = hd ts"
    and "last ts = [] \<or> last (last ts) \<noteq> CHR '' ''"
  shows "norm_terms ts = map strip_spaces ts"
proof (cases ts rule: norm_terms.cases)
  case 1
  with assms show ?thesis by simp
next
  case (2 t)
  with assms have "rstrip t = t" by (simp add: rstrip_id)
  with 2 assms show ?thesis by (simp add: strip_spaces_def)
next
  case (3 t u us)
  with assms have "norm_tail (u # us) = map strip_spaces (u # us)"
    by (intro norm_tail_strip) simp
  with 3 assms show ?thesis by (simp add: strip_spaces_def)
qed

lemma space_is_ws: "is_ws (CHR '' '')"
  by (simp add: is_ws_def)

lemma split_on_terms_no_sep: "t \<in> set (split_on sep s) \<Longrightarrow> sep \<notin> set t"
proof (induction s arbitrary: t)
  case Nil
  then show ?case by simp
next
  case (Cons c cs)
  have S: "split_on sep cs \<noteq> []" by (rule split_on_not_Nil)
  show ?case
  proof (cases "c = sep")
    case True
    with Cons show ?thesis by auto
  next
    case False
    with Cons.prems consider "t = c # hd (split_on sep cs)" | "t \<in> set (tl (split_on sep cs))"
      by auto
    then show ?thesis
    proof cases
      case 1
      have "hd (split_on sep cs) \<in> set (split_on sep cs)" using S by simp
      then have "sep \<notin> set (hd (split_on sep cs))" by (rule Cons.IH)
      with 1 False show ?thesis by auto
    next
      case 2
      then have "t \<in> set (split_on sep cs)" using S by (auto dest: list.set_sel(2))
      then show ?thesis by (rule Cons.IH)
    qed
  qed
qed

lemma set_strip_spaces: "set (strip_spaces t) \<subseteq> set t"
proof -
  have "set (strip_spaces t) \<subseteq> set (lstrip t)"
    using set_dropWhileD [of _ "\<lambda>x. x = CHR '' ''" "rev (lstrip t)"]
    by (auto simp: strip_spaces_def rstrip_def)
  moreover have "set (lstrip t) \<subseteq> set t"
    using set_dropWhileD [of _ "\<lambda>x. x = CHR '' ''" t] by (auto simp: lstrip_def)
  ultimately show ?thesis by blast
qed

lemma replaceAll_plus_clean:
  "CHR '','' \<notin> set t \<Longrightarrow>
   CHR '','' \<notin> set (replaceAll_char CHR '' '' CHR ''+'' t)
   \<and> CHR '' '' \<notin> set (replaceAll_char CHR '' '' CHR ''+'' t)"
  by (induction t) (auto simp: replaceAll_char_def)

lemma tag_terms_clean:
  "t \<in> set (tag_terms tags) \<Longrightarrow> CHR '','' \<notin> set t \<and> CHR '' '' \<notin> set t"
proof (cases tags)
  case None
  assume "t \<in> set (tag_terms tags)"
  with None show ?thesis by (simp add: tag_terms_def)
next
  case (Some s)
  assume "t \<in> set (tag_terms tags)"
  with Some obtain u where u: "u \<in> set (split_on CHR '','' s)"
    and t: "t = replaceAll_char CHR '' '' CHR ''+'' u"
    by (auto simp: tag_terms_def)
  from u have "CHR '','' \<notin> set u" by (rule split_on_terms_no_sep)
  then show ?thesis unfolding t by (rule replaceAll_plus_clean)
qed

lemma category_terms_clean:
  "t \<in> set (category_terms categories) \<Longrightarrow> CHR '','' \<notin> set t \<and> CHR '' '' \<notin> set t"
proof (cases categories)
  case None
  assume "t \<in> set (category_terms categories)"
  with None show ?thesis by (simp add: category_terms_def)
next
  case (Some s)
  assume "t \<in> set (category_terms categories)"
  with Some obtain u where u: "u \<in> set (split_on CHR '','' (trim s))"
    and t: "t = replaceAll_char CHR '' '' CHR ''+'' (strip_spaces u)"
    by (auto simp: category_terms_def)
  from u have "CHR '','' \<notin> set u" by (rule split_on_terms_no_sep)
  then have "CHR '','' \<notin> set (strip_spaces u)" using set_strip_spaces [of u] by blast
  then show ?thesis unfolding t by (rule replaceAll_plus_clean)
qed

lemma tags_example: "tag_terms (Some ''music, art'') = [''music'', ''+art'']"
  by code_simp

lemma categories_example: "category_terms (Some ''food,  fun'') = [''food'', ''fun'']"
  by code_simp

lemma category_split:
  "split_on CHR '','' (normalize_commas (trim c)) = map strip_spaces (split_on CHR '','' (trim c))"
proof -
  have ends: "trim c = [] \<or> (hd (trim c) \<noteq> CHR '' '' \<and> last (trim c) \<noteq> CHR '' '')"
    using trim_ends [of c] space_is_ws by metis
  have "norm_terms (split_on CHR '','' (trim c)) = map strip_spaces (split_on CHR '','' (trim c))"
  proof (rule norm_terms_strip)
    show "split_on CHR '','' (trim c) \<noteq> []" by (rule split_on_not_Nil)
    show "lstrip (hd (split_on CHR '','' (trim c))) = hd (split_on CHR '','' (trim c))"
      using ends by (intro first_term_no_leading_space) blast
    show "last (split_on CHR '','' (trim c)) = []
          \<or> last (last (split_on CHR '','' (trim c))) \<noteq> CHR '' ''"
      using ends by (intro last_term_no_trailing_space) blast
  qed
  then show ?thesis by (simp only: split_normalize_commas)
qed

lemma appendToUrl_as_terms:
  "appendToUrl url tags categories
     = url @ concat (map (\<lambda>t. ''&tag='' @ t) (tag_terms tags @ category_terms categories))"
proof -
  have tags_part:
    "(case tags of
        None \<Rightarrow> url
      | Some t \<Rightarrow>
          foldl (\<lambda>u tag. u @ ''&tag='' @ tag) url
            (split_on CHR '','' (replaceAll_char CHR '' '' CHR ''+'' t)))
       = url @ concat (map (\<lambda>t. ''&tag='' @ t) (tag_terms tags))"
  proof (cases tags)
    case None
    then show ?thesis by (simp add: tag_terms_def)
  next
    case (Some s)
    have "foldl (\<lambda>u tag. u @ ''&tag='' @ tag) url
            (split_on CHR '','' (replaceAll_char CHR '' '' CHR ''+'' s))
          = url @ concat (map (\<lambda>t. ''&tag='' @ t)
                            (split_on CHR '','' (replaceAll_char CHR '' '' CHR ''+'' s)))"
      by (rule foldl_append_terms)
    then show ?thesis
      by (simp only: Some option.case tag_terms_def split_on_replaceAll)
  qed
  have categories_part:
    "(case categories of
        None \<Rightarrow> u
      | Some c \<Rightarrow>
          foldl (\<lambda>u category. u @ ''&tag='' @ category) u
            (split_on CHR '',''
               (replaceAll_char CHR '' '' CHR ''+'' (normalize_commas (trim c)))))
       = u @ concat (map (\<lambda>t. ''&tag='' @ t) (category_terms categories))" for u
  proof (cases categories)
    case None
    then show ?thesis by (simp add: category_terms_def)
  next
    case (Some c)
    have "foldl (\<lambda>u category. u @ ''&tag='' @ category) u
            (split_on CHR '','' (replaceAll_char CHR '' '' CHR ''+'' (normalize_commas (trim c))))
          = u @ concat (map (\<lambda>t. ''&tag='' @ t)
                          (split_on CHR '',''
                             (replaceAll_char CHR '' '' CHR ''+'' (normalize_commas (trim c)))))"
      by (rule foldl_append_terms)
    then show ?thesis
      by (simp only: Some option.case category_terms_def split_on_replaceAll category_split
          map_map comp_def)
  qed
  have "appendToUrl url tags categories
          = (url @ concat (map (\<lambda>t. ''&tag='' @ t) (tag_terms tags)))
            @ concat (map (\<lambda>t. ''&tag='' @ t) (category_terms categories))"
    by (simp only: appendToUrl_def Let_def tags_part categories_part)
  then show ?thesis by simp
qed

subsection \<open>The overlap test, in instants\<close>

text \<open>
  For an event whose start and end are present and denote instants \<open>s\<close> and \<open>t\<close> once a
  bare date is completed (a start without \<open>T\<close> by \<open>T00:00\<close>, an end without \<open>T\<close> by \<open>T23:59\<close>),
  and a range whose bounds, where given, denote \<open>rb\<close> and \<open>re\<close> as they stand: the test reports
  nothing and returns true exactly when \<open>s \<le> re\<close> and \<open>rb \<le> t\<close>, an absent begin standing
  for the least instant of the platform and an absent end for the greatest. The bounds are
  inclusive: an event that ends at the range's begin, or starts at the range's end, is
  included (for an event with \<open>s \<le> t\<close> and a range that is not inverted, the other
  comparison follows).
\<close>

lemma eventWithinDateRange_instants:
  assumes start: "Date_parse h (if contains_char CHR ''T'' es then es else es @ ''T00:00'') = Num s"
    and finish: "Date_parse h (if contains_char CHR ''T'' ee then ee else ee @ ''T23:59'') = Num t"
    and rbegin: "map_option (Date_parse h) beginDateRange = map_option Num rb"
    and rend: "map_option (Date_parse h) endDateRange = map_option Num re"
  shows "eventWithinDateRange h (Some es) (Some ee) beginDateRange endDateRange
           = ([], s \<le> (case re of None \<Rightarrow> max_instant | Some r \<Rightarrow> r)
                  \<and> (case rb of None \<Rightarrow> min_instant | Some b \<Rightarrow> b) \<le> t)
         \<and> (rb = Some t \<and> s \<le> t \<and> (case re of None \<Rightarrow> True | Some r \<Rightarrow> t \<le> r)
              \<longrightarrow> snd (eventWithinDateRange h (Some es) (Some ee) beginDateRange endDateRange))
         \<and> (re = Some s \<and> s \<le> t \<and> (case rb of None \<Rightarrow> True | Some b \<Rightarrow> b \<le> s)
              \<longrightarrow> snd (eventWithinDateRange h (Some es) (Some ee) beginDateRange endDateRange))"
proof -
  let ?rb = "case rb of None \<Rightarrow> min_instant | Some b \<Rightarrow> b"
  let ?re = "case re of None \<Rightarrow> max_instant | Some r \<Rightarrow> r"
  have sb: "min_instant \<le> s \<and> s \<le> max_instant" using Date_parse_bounds [OF start] .
  have tb: "min_instant \<le> t \<and> t \<le> max_instant" using Date_parse_bounds [OF finish] .
  have le_end:
    "num_le (Num s) (case endDateRange of Some e \<Rightarrow> Date_parse h e | None \<Rightarrow> MAX_SAFE_INTEGER)
       = (s \<le> ?re)"
    using rend sb
    by (cases endDateRange; cases re) (auto simp: MAX_SAFE_INTEGER_def max_instant_def)
  have le_begin:
    "num_le (case beginDateRange of Some b \<Rightarrow> Date_parse h b | None \<Rightarrow> MIN_SAFE_INTEGER) (Num t)
       = (?rb \<le> t)"
    using rbegin tb
    by (cases beginDateRange; cases rb) (auto simp: MIN_SAFE_INTEGER_def min_instant_def)
  have main: "eventWithinDateRange h (Some es) (Some ee) beginDateRange endDateRange
                = ([], s \<le> ?re \<and> ?rb \<le> t)"
    using start finish le_end le_begin
    by (cases "contains_char CHR ''T'' es"; cases "contains_char CHR ''T'' ee")
      (simp_all add: eventWithinDateRange_def Let_def)
  have b1: "rb = Some t \<and> s \<le> t \<and> (case re of None \<Rightarrow> True | Some r \<Rightarrow> t \<le> r)
              \<longrightarrow> snd (eventWithinDateRange h (Some es) (Some ee) beginDateRange endDateRange)"
    using sb by (auto simp: main split: option.splits)
  have b2: "re = Some s \<and> s \<le> t \<and> (case rb of None \<Rightarrow> True | Some b \<Rightarrow> b \<le> s)
              \<longrightarrow> snd (eventWithinDateRange h (Some es) (Some ee) beginDateRange endDateRange)"
    using tb by (auto simp: main split: option.splits)
  show ?thesis using main b1 b2 by blast
qed

text \<open>
  On the example host, an all-day event of 5 January 2025 against a range that begins at
  23:59 of that day, the instant the event ends at: the event is included.
\<close>

lemma eventWithinDateRange_instants_example:
  "eventWithinDateRange utc_host (Some ''2025-01-05'') (Some ''2025-01-05'')
     (Some ''2025-01-05T23:59'') None = ([], True)"
proof -
  have s: "Date_parse utc_host
             (if contains_char CHR ''T'' ''2025-01-05'' then ''2025-01-05''
              else ''2025-01-05'' @ ''T00:00'') = Num 1736035200000"
    using utc_2025_01_05_start by (simp add: contains_char_def)
  have t: "Date_parse utc_host
             (if contains_char CHR ''T'' ''2025-01-05'' then ''2025-01-05''
              else ''2025-01-05'' @ ''T23:59'') = Num 1736121540000"
    using utc_2025_01_05_end by (simp add: contains_char_def)
  have b: "map_option (Date_parse utc_host) (Some ''2025-01-05T23:59'')
             = map_option Num (Some 1736121540000)"
    using utc_2025_01_05_end by simp
  have e: "map_option (Date_parse utc_host) None = map_option Num None" by simp
  show ?thesis
    using eventWithinDateRange_instants [OF s t b e] by (simp add: max_instant_def)
qed

section \<open>The claims\<close>

text \<open>
  C1. The claim has a bare date that is used as an end stand for 23:59 of its day. The code
  completes the event's own dates (a start without \<open>T\<close> by \<open>T00:00\<close>, an end without \<open>T\<close> by
  \<open>T23:59\<close>) and reads the two bounds of the range as they stand. On the example host, the
  event of 31 January 2025 from 10:00 to 11:00 against the range with no begin and the end
  \<open>2025-01-31\<close>: the end of the range is read as 00:00 of that day and the event is left
  out, where the same range written with the end \<open>2025-01-31T23:59\<close> includes it. The
  event's own end is completed: the all-day event of 31 January 2025 is included in the
  range that begins at 12:00 of that day.
\<close>

theorem eventWithinDateRange_bare_range_end:
  "eventWithinDateRange utc_host (Some ''2025-01-31T10:00'') (Some ''2025-01-31T11:00'')
     None (Some ''2025-01-31'') = ([], False)
   \<and> Date_parse utc_host ''2025-01-31'' = Date_parse utc_host ''2025-01-31T00:00''
   \<and> eventWithinDateRange utc_host (Some ''2025-01-31T10:00'') (Some ''2025-01-31T11:00'')
       None (Some ''2025-01-31T23:59'') = ([], True)
   \<and> eventWithinDateRange utc_host (Some ''2025-01-31'') (Some ''2025-01-31'')
       (Some ''2025-01-31T12:00'') None = ([], True)"
  by code_simp

text \<open>
  C2, as first stated: the survivors come sorted ascending by start timestamp, ties keeping
  the order of the feed. On the example host the starts \<open>2025-01-05T00:00\<close> and
  \<open>2025-01-05\<close> denote the same instant, a tie; the feed has them in this order and
  selection returns them in the other, the shorter string being the smaller. On the host
  that reads offsets, the start \<open>2025-01-05T09:00-05:00\<close> is four hours later than the start
  \<open>2025-01-05T10:00Z\<close>, and selection returns it first.
\<close>

theorem getEvents_order_counterexample:
  "start_instant utc_host ''2025-01-05T00:00'' = start_instant utc_host ''2025-01-05''
   \<and> snd (getEvents utc_host
             [feed_item ''2025-01-05T00:00'' ''2025-01-05'', feed_item ''2025-01-05'' ''2025-01-05'']
             None None None)
       = [feed_event ''2025-01-05'' ''2025-01-05'', feed_event ''2025-01-05T00:00'' ''2025-01-05'']
   \<and> start_instant offset_host ''2025-01-05T10:00Z'' = Num 1736071200000
   \<and> start_instant offset_host ''2025-01-05T09:00-05:00'' = Num 1736085600000
   \<and> snd (getEvents offset_host
             [feed_item ''2025-01-05T10:00Z'' ''2025-01-05T11:00Z'',
              feed_item ''2025-01-05T09:00-05:00'' ''2025-01-05T10:00-05:00'']
             None None None)
       = [feed_event ''2025-01-05T09:00-05:00'' ''2025-01-05T10:00-05:00'',
          feed_event ''2025-01-05T10:00Z'' ''2025-01-05T11:00Z'']"
  by code_simp

text \<open>
  C2, amended. Selection returns a prefix of the surviving events arranged by the comparator
  of the sort: ascending by the start field, two starts compared as strings, by code units
  (not as the instants they denote); an event with a null start before every other; and
  events with the same start string in the order of the feed. Every surviving event has a start that is present and readable, so the
  place of a null or unreadable start is never put to the test. For the feed with starts
  2025-01-10, 2025-01-05 and 2025-01-20, each ending the same day, no range, and the count
  2, on every host that reads these dates, selection returns the events of 2025-01-05 and
  2025-01-10, in that order.
\<close>

theorem getEvents_sorted_by_start:
  "(\<exists>k ys. snd (getEvents h doc b e c) = take k ys
       \<and> mset ys = mset (snd (collect_events h b e doc))
       \<and> sorted_wrt (\<lambda>x y. compare_start x y \<le> 0) ys
       \<and> (\<forall>s. filter (\<lambda>ev. ev_start ev = s) ys
                = filter (\<lambda>ev. ev_start ev = s) (snd (collect_events h b e doc))))
   \<and> (compare_start x y \<le> 0) =
       (ev_start x = None \<or> (\<exists>s t. ev_start x = Some s \<and> ev_start y = Some t \<and> s \<le> t))
   \<and> (\<forall>ev \<in> set (snd (collect_events h b e doc)).
         \<exists>s. ev_start ev = Some s \<and> start_instant h s \<noteq> NaN)
   \<and> ((\<forall>s \<in> set [''2025-01-10T00:00'', ''2025-01-10T23:59'', ''2025-01-05T00:00'',
                    ''2025-01-05T23:59'', ''2025-01-20T00:00'', ''2025-01-20T23:59''].
          Date_parse h s \<noteq> NaN)
        \<longrightarrow> snd (getEvents h
                   [feed_item ''2025-01-10'' ''2025-01-10'', feed_item ''2025-01-05'' ''2025-01-05'',
                    feed_item ''2025-01-20'' ''2025-01-20''] None None (Some ''2''))
            = [feed_event ''2025-01-05'' ''2025-01-05'', feed_event ''2025-01-10'' ''2025-01-10''])"
proof -
  have readable_starts: "\<forall>ev \<in> set (snd (collect_events h b e doc)).
         \<exists>s. ev_start ev = Some s \<and> start_instant h s \<noteq> NaN"
    using collect_events_readable [of _ h b e doc] by blast
  let ?survivors = "snd (collect_events h b e doc)"
  let ?ys = "sort_key ev_start ?survivors"
  obtain k where k: "snd (getEvents h doc b e c) = take k ?ys"
    using getEvents_prefix_sorted by blast
  have perm: "mset ?ys = mset ?survivors" by simp
  have "sorted (map ev_start ?ys)" by (rule sorted_sort_key)
  then have ordered: "sorted_wrt (\<lambda>x y. compare_start x y \<le> 0) ?ys"
    by (simp add: sorted_map compare_start_le)
  have stable: "\<forall>s. filter (\<lambda>ev. ev_start ev = s) ?ys = filter (\<lambda>ev. ev_start ev = s) ?survivors"
    by (simp add: sort_key_stable)
  have general: "\<exists>k ys. snd (getEvents h doc b e c) = take k ys
       \<and> mset ys = mset ?survivors
       \<and> sorted_wrt (\<lambda>x y. compare_start x y \<le> 0) ys
       \<and> (\<forall>s. filter (\<lambda>ev. ev_start ev = s) ys = filter (\<lambda>ev. ev_start ev = s) ?survivors)"
    using k perm ordered stable by blast
  have order: "(compare_start x y \<le> 0) =
       (ev_start x = None \<or> (\<exists>s t. ev_start x = Some s \<and> ev_start y = Some t \<and> s \<le> t))"
    by (cases "ev_start x"; cases "ev_start y") (auto simp: compare_start_def)
  have example: "(\<forall>s \<in> set [''2025-01-10T00:00'', ''2025-01-10T23:59'', ''2025-01-05T00:00'',
                    ''2025-01-05T23:59'', ''2025-01-20T00:00'', ''2025-01-20T23:59''].
          Date_parse h s \<noteq> NaN)
        \<longrightarrow> snd (getEvents h
                   [feed_item ''2025-01-10'' ''2025-01-10'', feed_item ''2025-01-05'' ''2025-01-05'',
                    feed_item ''2025-01-20'' ''2025-01-20''] None None (Some ''2''))
            = [feed_event ''2025-01-05'' ''2025-01-05'', feed_event ''2025-01-10'' ''2025-01-10'']"
  proof
    assume readable: "\<forall>s \<in> set [''2025-01-10T00:00'', ''2025-01-10T23:59'', ''2025-01-05T00:00'',
                    ''2025-01-05T23:59'', ''2025-01-20T00:00'', ''2025-01-20T23:59''].
          Date_parse h s \<noteq> NaN"
    have w10: "eventWithinDateRange h (Some ''2025-01-10'') (Some ''2025-01-10'') None None = ([], True)"
      using readable unbounded_within [of h "''2025-01-10''" "''2025-01-10''"]
      by (simp add: contains_char_def)
    have w05: "eventWithinDateRange h (Some ''2025-01-05'') (Some ''2025-01-05'') None None = ([], True)"
      using readable unbounded_within [of h "''2025-01-05''" "''2025-01-05''"]
      by (simp add: contains_char_def)
    have w20: "eventWithinDateRange h (Some ''2025-01-20'') (Some ''2025-01-20'') None None = ([], True)"
      using readable unbounded_within [of h "''2025-01-20''" "''2025-01-20''"]
      by (simp add: contains_char_def)
    have survivors: "collect_events h None None
             [feed_item ''2025-01-10'' ''2025-01-10'', feed_item ''2025-01-05'' ''2025-01-05'',
              feed_item ''2025-01-20'' ''2025-01-20'']
          = ([], [feed_event ''2025-01-10'' ''2025-01-10'', feed_event ''2025-01-05'' ''2025-01-05'',
                  feed_event ''2025-01-20'' ''2025-01-20''])"
      by (simp add: feed_item_def feed_event_def w10 w05 w20)
    have two: "parseInt ''2'' = Num 2" by code_simp
    have selected: "getEvents h
            [feed_item ''2025-01-10'' ''2025-01-10'', feed_item ''2025-01-05'' ''2025-01-05'',
             feed_item ''2025-01-20'' ''2025-01-20''] None None (Some ''2'')
          = ([], take (nat 2)
                   (sort_key ev_start
                      [feed_event ''2025-01-10'' ''2025-01-10'', feed_event ''2025-01-05'' ''2025-01-05'',
                       feed_event ''2025-01-20'' ''2025-01-20'']))"
      using getEvents_count [OF survivors, of "Some ''2''" 2] two by simp
    show "snd (getEvents h
                   [feed_item ''2025-01-10'' ''2025-01-10'', feed_item ''2025-01-05'' ''2025-01-05'',
                    feed_item ''2025-01-20'' ''2025-01-20''] None None (Some ''2''))
            = [feed_event ''2025-01-05'' ''2025-01-05'', feed_event ''2025-01-10'' ''2025-01-10'']"
      unfolding selected sort_three by simp
  qed
  show ?thesis using general order readable_starts example by blast
qed

text \<open>The example host reads the six dates, so the example holds on it.\<close>

theorem getEvents_sorted_by_start_witness:
  "snd (getEvents utc_host
          [feed_item ''2025-01-10'' ''2025-01-10'', feed_item ''2025-01-05'' ''2025-01-05'',
           feed_item ''2025-01-20'' ''2025-01-20''] None None (Some ''2''))
     = [feed_event ''2025-01-05'' ''2025-01-05'', feed_event ''2025-01-10'' ''2025-01-10'']"
proof -
  have readable: "\<forall>s \<in> set [''2025-01-10T00:00'', ''2025-01-10T23:59'', ''2025-01-05T00:00'',
                    ''2025-01-05T23:59'', ''2025-01-20T00:00'', ''2025-01-20T23:59''].
          Date_parse utc_host s \<noteq> NaN"
    by code_simp
  from getEvents_sorted_by_start [of utc_host "[]" None None None "feed_event [] []" "feed_event [] []"] readable
  show ?thesis by blast
qed

text \<open>
  C3. The count attribute \<open>-1\<close> is not a valid count, and the documentation of \<open>getEvents\<close>
  has an invalid count default to 2. The code takes the default only when \<open>parseInt\<close> yields
  \<open>NaN\<close>: \<open>parseInt\<close> reads \<open>-1\<close>, and \<open>slice(0, -1)\<close> drops the last event. With one surviving
  event, selection returns nothing, where the default returns the event. In the same way
  the count \<open>3abc\<close> is read as 3.
\<close>

theorem getEvents_negative_count:
  "parseInt ''-1'' = Num (- 1)
   \<and> getEvents utc_host [feed_item ''2025-01-05'' ''2025-01-05''] None None (Some ''-1'') = ([], [])
   \<and> getEvents utc_host [feed_item ''2025-01-05'' ''2025-01-05''] None None None
       = ([], [feed_event ''2025-01-05'' ''2025-01-05''])
   \<and> parseInt ''3abc'' = Num 3"
  by code_simp

text \<open>
  C4, as first stated: an item whose start is present but unreadable makes the cycle raise a
  fatal error that is reported to the sink. On the example host the start \<open>soon\<close> is
  unreadable; the module, run on an element whose feed has one such item, resolves, reports
  nothing, and writes the text for no events into the element, whether the script of the
  sink has loaded or not.
\<close>

theorem unreadable_start_counterexample:
  "Date_parse utc_host ''soonT00:00'' = NaN
   \<and> run_module utc_host Loaded (\<lambda>n url. Inr [feed_item ''soon'' ''2025-01-05''])
         [blank_element]
       = ([], [blank_element\<lparr>innerHTML := ''There are no events to display.''\<rparr>], Resolved)
   \<and> run_module utc_host Undeclared (\<lambda>n url. Inr [feed_item ''soon'' ''2025-01-05''])
         [blank_element]
       = ([], [blank_element\<lparr>innerHTML := ''There are no events to display.''\<rparr>], Resolved)"
  by code_simp

text \<open>
  C4, amended. For a feed item whose start and end are present and one of them does not
  denote an instant, the overlap test returns false and reports nothing, and selection drops
  the item without a trace: its result and its effects are those for the feed without the
  item. Nothing is raised. (The formatter raises only for an event whose start or end is
  null, and selection returns no such event.)
\<close>

theorem unreadable_item_dropped:
  assumes first_start: "startElements it = Some s # ss"
    and first_end: "endElements it = Some t # ts"
    and unreadable:
      "Date_parse h (if contains_char CHR ''T'' s then s else s @ ''T00:00'') = NaN
       \<or> Date_parse h (if contains_char CHR ''T'' t then t else t @ ''T23:59'') = NaN"
  shows "eventWithinDateRange h (Some s) (Some t) b e = ([], False)
         \<and> getEvents h (pre @ it # post) b e c = getEvents h (pre @ post) b e c"
proof -
  have test: "eventWithinDateRange h (Some s) (Some t) b e = ([], False)"
    using unreadable by (rule unreadable_not_within)
  have skip: "collect_events h b e (it # post) = collect_events h b e post"
    by (simp add: first_start first_end test split: prod.splits)
  have "collect_events h b e (pre @ it # post)
          = (fst (collect_events h b e pre) @ fst (collect_events h b e (it # post)),
             snd (collect_events h b e pre) @ snd (collect_events h b e (it # post)))"
    by (rule collect_events_append)
  also have "\<dots> = (fst (collect_events h b e pre) @ fst (collect_events h b e post),
                   snd (collect_events h b e pre) @ snd (collect_events h b e post))"
    by (simp only: skip)
  also have "\<dots> = collect_events h b e (pre @ post)"
    by (rule collect_events_append [symmetric])
  finally have "getEvents h (pre @ it # post) b e c = getEvents h (pre @ post) b e c"
    by (simp add: getEvents_def)
  with test show ?thesis by blast
qed

text \<open>
  On the example host, the feed of an event of 5 January 2025 followed by an item whose
  start is \<open>soon\<close>: selection returns what it returns for the first item alone.
\<close>

theorem unreadable_item_dropped_witness:
  "eventWithinDateRange utc_host (Some ''soon'') (Some ''2025-01-05'') None None = ([], False)
   \<and> getEvents utc_host [feed_item ''2025-01-05'' ''2025-01-05'', feed_item ''soon'' ''2025-01-05'']
         None None None
       = getEvents utc_host [feed_item ''2025-01-05'' ''2025-01-05''] None None None"
proof -
  have s: "startElements (feed_item ''soon'' ''2025-01-05'') = Some ''soon'' # []"
    by (simp add: feed_item_def)
  have t: "endElements (feed_item ''soon'' ''2025-01-05'') = Some ''2025-01-05'' # []"
    by (simp add: feed_item_def)
  have "Date_parse utc_host ''soonT00:00'' = NaN" by code_simp
  then have u: "Date_parse utc_host
                  (if contains_char CHR ''T'' ''soon'' then ''soon'' else ''soon'' @ ''T00:00'') = NaN
                \<or> Date_parse utc_host
                  (if contains_char CHR ''T'' ''2025-01-05'' then ''2025-01-05''
                   else ''2025-01-05'' @ ''T23:59'') = NaN"
    by (simp add: contains_char_def)
  from unreadable_item_dropped [OF s t u, of None None "[feed_item ''2025-01-05'' ''2025-01-05'']" "[]" None]
  show ?thesis by simp
qed

text \<open>
  C5, as first stated: when the fetch of one target fails, the remaining targets still run
  their cycles. With three targets on a network that rejects the second request of the run
  and answers every other: the third target's request would be answered, yet no request is
  made for it and its content is left as it was, because the rejection ends the loop. This
  is so whether the script of the sink has loaded or not; when it has not, the handler's
  call of \<open>LogError\<close> throws, nothing reaches the sink, and the promise is rejected with that
  \<open>ReferenceError\<close>.
\<close>

theorem fetch_failure_counterexample:
  "failing_network 2 (request_url blank_element) = Inr []
   \<and> run_module utc_host Loaded failing_network [blank_element, blank_element, blank_element]
       = ([Console_error ''Failed to fetch'', LogError ''Failed to fetch''],
          [blank_element\<lparr>innerHTML := ''There are no events to display.''\<rparr>,
           blank_element, blank_element],
          Rejected (Error ''Failed to fetch''))
   \<and> run_module utc_host Undeclared failing_network
         [blank_element, blank_element, blank_element]
       = ([Console_error ''Failed to fetch''],
          [blank_element\<lparr>innerHTML := ''There are no events to display.''\<rparr>,
           blank_element, blank_element],
          Rejected (Error ''Bugsnag is not defined''))"
  by code_simp

text \<open>
  C5, amended. The targets are processed in order. When the fetch/parse step of one target
  fails, that is, \<open>fetchXmlDoc\<close> is rejected for it (the fetch, or the reading of the
  response), after the requests for the targets before it were answered: the rejection is
  caught at the top level and written to the console, and the module's promise is rejected;
  when the script of the sink has loaded, the reason is also forwarded to the sink and the
  promise is rejected with that reason. In every case the targets before the failing one
  keep the content their cycles wrote, and the failing target and every target after it are
  left as they were: no cycle runs for them.
\<close>

theorem fetch_failure_stops_loop:
  assumes answered: "answered_from net 0 pre"
    and rejected: "fetchXmlDoc net (length pre) (request_url el) = Inl reason"
  shows "run_module h Loaded net (pre @ el # post)
           = (effects_from h net 0 pre
                @ [Console_error (error_message reason), LogError (error_message reason)],
              rendered_from h net 0 pre @ el # post,
              Rejected reason)
         \<and> (\<exists>thrown. run_module h sink net (pre @ el # post)
                = (effects_from h net 0 pre @ Console_error (error_message reason)
                     # fst (LogError_call sink (error_message reason)),
                   rendered_from h net 0 pre @ el # post,
                   Rejected thrown))"
proof -
  have stops: "main_loop h net 0 (pre @ el # post)
          = (effects_from h net 0 pre, rendered_from h net 0 pre @ el # post, Some reason)"
    using answered rejected by (intro main_loop_stops) (simp_all add: fetchXmlDoc_def)
  then have loaded: "run_module h Loaded net (pre @ el # post)
           = (effects_from h net 0 pre
                @ [Console_error (error_message reason), LogError (error_message reason)],
              rendered_from h net 0 pre @ el # post,
              Rejected reason)"
    by (simp add: run_module_def main_def LogError_call_def)
  have "\<exists>thrown. run_module h sink net (pre @ el # post)
                = (effects_from h net 0 pre @ Console_error (error_message reason)
                     # fst (LogError_call sink (error_message reason)),
                   rendered_from h net 0 pre @ el # post,
                   Rejected thrown)"
    using stops by (cases sink) (simp_all add: run_module_def main_def LogError_call_def)
  with loaded show ?thesis by blast
qed

text \<open>
  Two targets on the failing network, the first with the count 1, the second with the tag
  \<open>art\<close>: the first is rendered, the second is untouched.
\<close>

theorem fetch_failure_stops_loop_witness:
  "run_module utc_host Loaded failing_network
     [blank_element\<lparr>attr_count := Some ''1''\<rparr>, blank_element\<lparr>attr_tags := Some ''art''\<rparr>]
     = ([Console_error ''Failed to fetch'', LogError ''Failed to fetch''],
        [blank_element\<lparr>attr_count := Some ''1'', innerHTML := ''There are no events to display.''\<rparr>,
         blank_element\<lparr>attr_tags := Some ''art''\<rparr>],
        Rejected (Error ''Failed to fetch''))"
proof -
  have ok: "answered_from failing_network 0 [blank_element\<lparr>attr_count := Some ''1''\<rparr>]"
    by (simp add: failing_network_def)
  have bad: "fetchXmlDoc failing_network (length [blank_element\<lparr>attr_count := Some ''1''\<rparr>])
               (request_url (blank_element\<lparr>attr_tags := Some ''art''\<rparr>))
             = Inl (Error ''Failed to fetch'')"
    by (simp add: failing_network_def fetchXmlDoc_def)
  have body: "main_body utc_host failing_network 0 (blank_element\<lparr>attr_count := Some ''1''\<rparr>)
                = ([], Inr ''There are no events to display.'')"
    by code_simp
  from fetch_failure_stops_loop [OF ok bad, of utc_host "[]" Loaded]
  show ?thesis
    by (simp add: body rendered_def error_message_def)
qed

text \<open>
  C6. For a non-empty list of events with a start and an end, the formatter reports nothing
  and returns the opening of the container, each event formatted in turn, and the closing.
  The format of an event (\<^const>\<open>format_event\<close>) is the text of the page with the labels in
  it: the month label, in the \<open>span\<close> of class \<open>month\<close>, is the start's short month name,
  extended to \<open>start-end\<close> only when the end's differs; the day label and the year label
  follow the same rule on the day and the year; the \<open>span\<close> of class \<open>year\<close> with the year
  label is in the text exactly when the show-year attribute is the string \<open>true\<close>; and the
  \<open>div\<close> of class \<open>time\<close> with the time label \<open>start time - end time\<close> is in the text exactly
  when both the start and the end contain a time component.
\<close>

theorem getHtml_formats_events:
  assumes "events \<noteq> []"
    and "\<forall>ev \<in> set events. ev_start ev \<noteq> None \<and> ev_end ev \<noteq> None"
  shows \<open>getHtml h events dataShowYear
           = ([], Inr (''<div class="homeEvents row hasBackground"><div class="wrapper">''
                       @ concat (map (format_event h (dataShowYear = Some ''true'')) events)
                       @ ''</div></div>''))\<close>
  using assms getHtml_loop_format [OF assms(2)]
  by (simp add: getHtml_def)

text \<open>
  On the example host, the event from 2025-03-01T09:00 to 2025-03-02T17:00 with the year
  shown: the month label is \<open>Mar\<close>, the day label \<open>1-2\<close>, the year label \<open>2025\<close> and the time
  label \<open>9:00 AM - 5:00 PM\<close>, each at its place in the text of the page. And the event from
  2025-03-01 to 2025-04-02, two bare dates, with the show-year attribute \<open>false\<close>: the month
  label is \<open>Mar-Apr\<close>, the day label \<open>1-2\<close>, and the text has neither the year nor the time.
\<close>

theorem getHtml_formats_events_witness:
  \<open>getHtml utc_host [feed_event ''2025-03-01T09:00'' ''2025-03-02T17:00''] (Some ''true'')
     = ([], Inr (''<div class="homeEvents row hasBackground"><div class="wrapper">''
                 @ ''\<newline>                <div class="eventWrap columns col2">''
                 @ ''\<newline>                    <div class="date">''
                 @ ''\<newline>                        <div class="dateWrap">''
                 @ ''<span class="month">Mar</span><span class="day">1-2</span>''
                 @ ''\<newline>            ''
                 @ ''\<newline>                            <span class="year">2025</span>''
                 @ ''\<newline>                ''
                 @ ''\<newline>                        </div>''
                 @ ''\<newline>                    </div>''
                 @ ''\<newline>                    <div class="eventDescription">''
                 @ ''\<newline>                        <div class="title">''
                 @ ''<a href="https://example.org/e">Concert</a></div>''
                 @ ''\<newline>            ''
                 @ ''\<newline>                        <div class="time">9:00 AM - 5:00 PM</div>''
                 @ ''\<newline>                ''
                 @ ''\<newline>                        <div class="description">''
                 @ ''<span>Music</span></div>''
                 @ ''\<newline>                        <div class="read-more">''
                 @ ''<a href="https://example.org/e">Read more ''
                 @ [CHR 0xE2, CHR 0x89, CHR 0xAB] @ ''</a></div>''
                 @ ''\<newline>                    </div>''
                 @ ''\<newline>                </div>''
                 @ ''\<newline>            ''
                 @ ''</div></div>''))
   \<and> getHtml utc_host [feed_event ''2025-03-01'' ''2025-04-02''] (Some ''false'')
     = ([], Inr (''<div class="homeEvents row hasBackground"><div class="wrapper">''
                 @ ''\<newline>                <div class="eventWrap columns col2">''
                 @ ''\<newline>                    <div class="date">''
                 @ ''\<newline>                        <div class="dateWrap">''
                 @ ''<span class="month">Mar-Apr</span><span class="day">1-2</span>''
                 @ ''\<newline>            ''
                 @ ''\<newline>                        </div>''
                 @ ''\<newline>                    </div>''
                 @ ''\<newline>                    <div class="eventDescription">''
                 @ ''\<newline>                        <div class="title">''
                 @ ''<a href="https://example.org/e">Concert</a></div>''
                 @ ''\<newline>            ''
                 @ ''\<newline>                        <div class="description">''
                 @ ''<span>Music</span></div>''
                 @ ''\<newline>                        <div class="read-more">''
                 @ ''<a href="https://example.org/e">Read more ''
                 @ [CHR 0xE2, CHR 0x89, CHR 0xAB] @ ''</a></div>''
                 @ ''\<newline>                    </div>''
                 @ ''\<newline>                </div>''
                 @ ''\<newline>            ''
                 @ ''</div></div>''))\<close>
proof -
  have dates: "\<forall>ev \<in> set [feed_event ''2025-03-01T09:00'' ''2025-03-02T17:00''].
                  ev_start ev \<noteq> None \<and> ev_end ev \<noteq> None"
    by (simp add: feed_event_def)
  have dates': "\<forall>ev \<in> set [feed_event ''2025-03-01'' ''2025-04-02''].
                  ev_start ev \<noteq> None \<and> ev_end ev \<noteq> None"
    by (simp add: feed_event_def)
  have formatted:
    \<open>format_event utc_host (Some ''true'' = Some ''true'')
       (feed_event ''2025-03-01T09:00'' ''2025-03-02T17:00'')
     = ''\<newline>                <div class="eventWrap columns col2">''
       @ ''\<newline>                    <div class="date">''
       @ ''\<newline>                        <div class="dateWrap">''
       @ ''<span class="month">Mar</span><span class="day">1-2</span>''
       @ ''\<newline>            ''
       @ ''\<newline>                            <span class="year">2025</span>''
       @ ''\<newline>                ''
       @ ''\<newline>                        </div>''
       @ ''\<newline>                    </div>''
       @ ''\<newline>                    <div class="eventDescription">''
       @ ''\<newline>                        <div class="title">''
       @ ''<a href="https://example.org/e">Concert</a></div>''
       @ ''\<newline>            ''
       @ ''\<newline>                        <div class="time">9:00 AM - 5:00 PM</div>''
       @ ''\<newline>                ''
       @ ''\<newline>                        <div class="description">''
       @ ''<span>Music</span></div>''
       @ ''\<newline>                        <div class="read-more">''
       @ ''<a href="https://example.org/e">Read more ''
       @ [CHR 0xE2, CHR 0x89, CHR 0xAB] @ ''</a></div>''
       @ ''\<newline>                    </div>''
       @ ''\<newline>                </div>''
       @ ''\<newline>            ''\<close>
    by code_simp
  have formatted':
    \<open>format_event utc_host (Some ''false'' = Some ''true'')
       (feed_event ''2025-03-01'' ''2025-04-02'')
     = ''\<newline>                <div class="eventWrap columns col2">''
       @ ''\<newline>                    <div class="date">''
       @ ''\<newline>                        <div class="dateWrap">''
       @ ''<span class="month">Mar-Apr</span><span class="day">1-2</span>''
       @ ''\<newline>            ''
       @ ''\<newline>                        </div>''
       @ ''\<newline>                    </div>''
       @ ''\<newline>                    <div class="eventDescription">''
       @ ''\<newline>                        <div class="title">''
       @ ''<a href="https://example.org/e">Concert</a></div>''
       @ ''\<newline>            ''
       @ ''\<newline>                        <div class="description">''
       @ ''<span>Music</span></div>''
       @ ''\<newline>                        <div class="read-more">''
       @ ''<a href="https://example.org/e">Read more ''
       @ [CHR 0xE2, CHR 0x89, CHR 0xAB] @ ''</a></div>''
       @ ''\<newline>                    </div>''
       @ ''\<newline>                </div>''
       @ ''\<newline>            ''\<close>
    by code_simp
  have shown: \<open>getHtml utc_host [feed_event ''2025-03-01T09:00'' ''2025-03-02T17:00'']
                  (Some ''true'')
     = ([], Inr (''<div class="homeEvents row hasBackground"><div class="wrapper">''
                 @ concat (map (format_event utc_host (Some ''true'' = Some ''true''))
                             [feed_event ''2025-03-01T09:00'' ''2025-03-02T17:00''])
                 @ ''</div></div>''))\<close>
    using getHtml_formats_events [OF _ dates, of utc_host "Some ''true''"] by simp
  have hidden: \<open>getHtml utc_host [feed_event ''2025-03-01'' ''2025-04-02''] (Some ''false'')
     = ([], Inr (''<div class="homeEvents row hasBackground"><div class="wrapper">''
                 @ concat (map (format_event utc_host (Some ''false'' = Some ''true''))
                             [feed_event ''2025-03-01'' ''2025-04-02''])
                 @ ''</div></div>''))\<close>
    using getHtml_formats_events [OF _ dates', of utc_host "Some ''false''"] by simp
  show ?thesis
    unfolding shown hidden
    by (rule conjI)
      (simp_all only: list.map concat.simps append_Nil2 formatted formatted' append_assoc)
qed

text \<open>
  C7, as first stated: the description \<open><p>Hello&nbsp; world</p>\<close> sanitizes to
  \<open>Hello world\<close>. It does not: \<open>removeTags\<close> replaces tags and collapses spaces, and it has
  nothing that decodes a character reference, so \<open>&nbsp;\<close> stays as it is; and were the
  reference already decoded to the code unit U+00A0, that code unit is not a space and stays
  too.
\<close>

theorem removeTags_example_counterexample:
  "removeTags (Text ''<p>Hello&nbsp; world</p>'') \<noteq> ''Hello world''
   \<and> removeTags (Text (''<p>Hello'' @ [CHR 0xA0] @ '' world</p>'')) \<noteq> ''Hello world''"
proof -
  have 1: "removeTags (Text ''<p>Hello&nbsp; world</p>'') = ''Hello&nbsp; world''"
    by code_simp
  have 2: "removeTags (Text (''<p>Hello'' @ [CHR 0xA0] @ '' world</p>''))
             = ''Hello'' @ [CHR 0xA0] @ '' world''"
    by code_simp
  show ?thesis unfolding 1 2 by simp
qed

text \<open>
  C7, amended. A null or undefined description sanitizes to the empty string; a description
  \<open>html\<close> goes through three steps, \<open>trim (collapse_spaces (replace_tags html))\<close>, where
  \<^item> a tag (a \<open><\<close>, one code unit, then what comes up to the next \<open>>\<close>) becomes one space, the
    text before it (free of \<open><\<close>) is kept, and a text with no \<open><\<close> is unchanged;
  \<^item> a run of one or more spaces, bounded on both sides by something other than a space,
    becomes one space, and a text with no space is unchanged;
  \<^item> the result has no two spaces in a row and neither starts nor ends with white space.
  Character references are not decoded: \<open><p>Hello&nbsp; world</p>\<close> sanitizes to
  \<open>Hello&nbsp; world\<close>.
\<close>

theorem removeTags_sanitizes:
  "removeTags Null = [] \<and> removeTags Undefined = []
   \<and> removeTags (Text html) = trim (collapse_spaces (replace_tags html))
   \<and> (CHR ''<'' \<notin> set pre \<and> CHR ''>'' \<notin> set body
        \<longrightarrow> replace_tags (pre @ CHR ''<'' # c # body @ CHR ''>'' # rest)
            = pre @ CHR '' '' # replace_tags rest)
   \<and> (CHR ''<'' \<notin> set w \<longrightarrow> replace_tags w = w)
   \<and> ((u = [] \<or> last u \<noteq> CHR '' '') \<and> (v = [] \<or> hd v \<noteq> CHR '' '')
        \<longrightarrow> collapse_spaces (u @ replicate (Suc n) (CHR '' '') @ v)
            = collapse_spaces u @ CHR '' '' # collapse_spaces v)
   \<and> (CHR '' '' \<notin> set w \<longrightarrow> collapse_spaces w = w)
   \<and> \<not> (\<exists>a b. removeTags d = a @ CHR '' '' # CHR '' '' # b)
   \<and> (removeTags d = [] \<or> (\<not> is_ws (hd (removeTags d)) \<and> \<not> is_ws (last (removeTags d))))
   \<and> removeTags (Text ''<p>Hello&nbsp; world</p>'') = ''Hello&nbsp; world''"
proof -
  have nulls: "removeTags Null = [] \<and> removeTags Undefined = []"
    by (simp add: removeTags_def)
  have steps: "removeTags (Text html) = trim (collapse_spaces (replace_tags html))"
    by (simp add: removeTags_def)
  have tag: "CHR ''<'' \<notin> set pre \<and> CHR ''>'' \<notin> set body
        \<longrightarrow> replace_tags (pre @ CHR ''<'' # c # body @ CHR ''>'' # rest)
            = pre @ CHR '' '' # replace_tags rest"
    using replace_tags_text [of pre "CHR ''<'' # c # body @ CHR ''>'' # rest"]
      replace_tags_tag [of body c rest]
    by simp
  have plain: "CHR ''<'' \<notin> set w \<longrightarrow> replace_tags w = w"
    using replace_tags_text [of w "[]"] by simp
  have run: "(u = [] \<or> last u \<noteq> CHR '' '') \<and> (v = [] \<or> hd v \<noteq> CHR '' '')
        \<longrightarrow> collapse_spaces (u @ replicate (Suc n) (CHR '' '') @ v)
            = collapse_spaces u @ CHR '' '' # collapse_spaces v"
    using collapse_spaces_run [of u v n] by blast
  have word: "CHR '' '' \<notin> set w \<longrightarrow> collapse_spaces w = w"
    using collapse_spaces_no_space [of w] by blast
  have single: "\<not> (\<exists>a b. removeTags d = a @ CHR '' '' # CHR '' '' # b)"
  proof (cases d)
    case (Text h)
    have "\<not> (\<exists>a b. collapse_spaces (replace_tags h) = a @ CHR '' '' # CHR '' '' # b)"
      using collapse_spaces_single [of "replace_tags h"] unfolding has_double_space_iff .
    then show ?thesis
      using trim_keeps_single [of "collapse_spaces (replace_tags h)"]
      by (simp add: removeTags_def Text)
  qed (simp_all add: removeTags_def)
  have ends: "removeTags d = [] \<or> (\<not> is_ws (hd (removeTags d)) \<and> \<not> is_ws (last (removeTags d)))"
  proof (cases d)
    case (Text h)
    then show ?thesis
      using trim_ends [of "collapse_spaces (replace_tags h)"] by (simp add: removeTags_def)
  qed (simp_all add: removeTags_def)
  have example: "removeTags (Text ''<p>Hello&nbsp; world</p>'') = ''Hello&nbsp; world''"
    by code_simp
  show ?thesis
    using nulls steps tag plain run word single ends example by blast
qed

text \<open>
  The description \<open>Hi<br/> there\<close>, then \<open>a\<close>, three spaces and \<open>b\<close>: the tag becomes one space
  and the run becomes one space.
\<close>

theorem removeTags_sanitizes_witness:
  "replace_tags (''Hi'' @ CHR ''<'' # CHR ''b'' # ''r/'' @ CHR ''>'' # '' there'')
     = ''Hi'' @ CHR '' '' # replace_tags '' there''
   \<and> replace_tags ''a > b'' = ''a > b''
   \<and> collapse_spaces (''a'' @ replicate (Suc 2) (CHR '' '') @ ''b'')
       = collapse_spaces ''a'' @ CHR '' '' # collapse_spaces ''b''
   \<and> collapse_spaces ''a<b'' = ''a<b''
   \<and> removeTags (Text ''Hi<br/>  there '') = ''Hi there''"
proof -
  note claim = removeTags_sanitizes [of "''Hi<br/>  there ''" "''Hi''" "''r/''" "CHR ''b''"
      "'' there''" "''a > b''" "''a''" "''b''" 2 "Text ''Hi<br/>  there ''"]
  have t1: "replace_tags (''Hi'' @ CHR ''<'' # CHR ''b'' # ''r/'' @ CHR ''>'' # '' there'')
              = ''Hi'' @ CHR '' '' # replace_tags '' there''"
    using claim by simp
  have t2: "replace_tags ''a > b'' = ''a > b''"
    using claim by simp
  have t3: "collapse_spaces (''a'' @ replicate (Suc 2) (CHR '' '') @ ''b'')
              = collapse_spaces ''a'' @ CHR '' '' # collapse_spaces ''b''"
    using claim by simp
  have t4: "collapse_spaces ''a<b'' = ''a<b''"
    using removeTags_sanitizes [of "[]" "[]" "[]" "CHR ''x''" "[]" "''a<b''" "[]" "[]" 0 Null]
    by simp
  have t5: "removeTags (Text ''Hi<br/>  there '') = ''Hi there''"
    by code_simp
  show ?thesis using t1 t2 t3 t4 t5 by blast
qed

text \<open>
  C8, as first stated: each term has its internal white space replaced by \<open>+\<close>, and category
  terms have the white space around commas removed. A tab is white space. In the tags
  \<open>live\<close>, a tab, \<open>music\<close> the tab inside the term stays, and in the categories \<open>food\<close>, a tab,
  \<open>,fun\<close> the tab before the comma stays: \<open>replaceAll\<close> is given the space character and the
  regular expression is \<open>/ *, */g\<close>, so only the space U+0020 is replaced or removed.
\<close>

theorem appendToUrl_tab_counterexample:
  "is_ws (CHR 0x09)
   \<and> appendToUrl ''u'' (Some (''live'' @ [CHR 0x09] @ ''music''))
         (Some (''food'' @ [CHR 0x09] @ '',fun''))
       = ''u&tag=live'' @ [CHR 0x09] @ ''music&tag=food'' @ [CHR 0x09] @ ''&tag=fun''
   \<and> appendToUrl ''u'' (Some ''live music'') (Some ''food ,fun'')
       = ''u&tag=live+music&tag=food&tag=fun''"
  by code_simp

text \<open>
  C8, amended. The request URL is the base URL followed by \<open>&tag=\<close> and the term, once per
  term, the tag terms first and the category terms after them. The tag terms are the pieces
  of the tags string between its commas, each space (U+0020) of a piece replaced by \<open>+\<close>;
  the category terms are the pieces of the trimmed categories string between its commas,
  each stripped of the spaces around it and then each space inside it replaced by \<open>+\<close>.
  Other white space stays as it is. No term contains a comma or a space. For the tags
  \<open>music, art\<close> and the categories \<open>food,  fun\<close> the URL gains
  \<open>&tag=music&tag=+art&tag=food&tag=fun\<close>: two parameters from each.
\<close>

theorem appendToUrl_terms:
  "appendToUrl url tags categories
     = url @ concat (map (\<lambda>t. ''&tag='' @ t) (tag_terms tags @ category_terms categories))
   \<and> (\<forall>t \<in> set (tag_terms tags @ category_terms categories).
         CHR '','' \<notin> set t \<and> CHR '' '' \<notin> set t)
   \<and> appendToUrl url (Some ''music, art'') (Some ''food,  fun'')
       = url @ ''&tag=music&tag=+art&tag=food&tag=fun''"
proof -
  have clean: "\<forall>t \<in> set (tag_terms tags @ category_terms categories).
                 CHR '','' \<notin> set t \<and> CHR '' '' \<notin> set t"
    using tag_terms_clean [of _ tags] category_terms_clean [of _ categories] by auto
  have "appendToUrl url (Some ''music, art'') (Some ''food,  fun'')
          = url @ concat (map (\<lambda>t. ''&tag='' @ t) ([''music'', ''+art''] @ [''food'', ''fun'']))"
    by (simp only: appendToUrl_as_terms tags_example categories_example)
  then have example: "appendToUrl url (Some ''music, art'') (Some ''food,  fun'')
          = url @ ''&tag=music&tag=+art&tag=food&tag=fun''"
    by simp
  show ?thesis
    using appendToUrl_as_terms [of url tags categories] clean example by blast
qed

text \<open>
  The module's base URL with the tags \<open>live music,art\<close> and the categories \<open> food , fun \<close>.
\<close>

theorem appendToUrl_terms_witness:
  "appendToUrl CALENDAR_RSS_URL (Some ''live music,art'') (Some '' food , fun '')
     = CALENDAR_RSS_URL @ ''&tag=live+music&tag=art&tag=food&tag=fun''
   \<and> CHR '','' \<notin> set ''live+music'' \<and> CHR '' '' \<notin> set ''live+music''"
proof -
  have tags: "tag_terms (Some ''live music,art'') = [''live+music'', ''art'']" by code_simp
  have categories: "category_terms (Some '' food , fun '') = [''food'', ''fun'']" by code_simp
  note claim = appendToUrl_terms [of CALENDAR_RSS_URL "Some ''live music,art''" "Some '' food , fun ''"]
  from claim have "appendToUrl CALENDAR_RSS_URL (Some ''live music,art'') (Some '' food , fun '')
     = CALENDAR_RSS_URL
       @ concat (map (\<lambda>t. ''&tag='' @ t)
                   (tag_terms (Some ''live music,art'') @ category_terms (Some '' food , fun '')))"
    by blast
  then have "appendToUrl CALENDAR_RSS_URL (Some ''live music,art'') (Some '' food , fun '')
     = CALENDAR_RSS_URL
       @ concat (map (\<lambda>t. ''&tag='' @ t) ([''live+music'', ''art''] @ [''food'', ''fun'']))"
    by (simp only: tags categories)
  then have url: "appendToUrl CALENDAR_RSS_URL (Some ''live music,art'') (Some '' food , fun '')
     = CALENDAR_RSS_URL @ ''&tag=live+music&tag=art&tag=food&tag=fun''"
    by simp
  from claim
  have "\<forall>t \<in> set (tag_terms (Some ''live music,art'') @ category_terms (Some '' food , fun '')).
          CHR '','' \<notin> set t \<and> CHR '' '' \<notin> set t"
    by blast
  then have "\<forall>t \<in> set ([''live+music'', ''art''] @ [''food'', ''fun'']).
               CHR '','' \<notin> set t \<and> CHR '' '' \<notin> set t"
    by (simp only: tags categories)
  then have "CHR '','' \<notin> set ''live+music'' \<and> CHR '' '' \<notin> set ''live+music''"
    by simp
  with url show ?thesis by blast
qed

text \<open>
  C9. Whatever the show-year attribute, formatting no events yields exactly the text
  \<open>There are no events to display.\<close>, with no effect; and when no item of the feed survives
  the filter, selection returns the empty list (its result has no error case).
\<close>

theorem getHtml_no_events:
  "getHtml h [] dataShowYear = ([], Inr ''There are no events to display.'')
   \<and> (snd (collect_events h b e doc) = []
        \<longrightarrow> getEvents h doc b e c = (fst (collect_events h b e doc), []))"
  by (simp add: getHtml_def getEvents_def Let_def split: prod.splits)

text \<open>A feed whose only item has an unreadable start: nothing survives, nothing is selected.\<close>

theorem getHtml_no_events_witness:
  "snd (collect_events utc_host None None [feed_item ''soon'' ''2025-01-05'']) = []
   \<and> getEvents utc_host [feed_item ''soon'' ''2025-01-05''] None None (Some ''3'') = ([], [])
   \<and> getHtml utc_host [] (Some ''true'') = ([], Inr ''There are no events to display.'')"
proof -
  have none: "collect_events utc_host None None [feed_item ''soon'' ''2025-01-05''] = ([], [])"
    by code_simp
  have survivors: "snd (collect_events utc_host None None [feed_item ''soon'' ''2025-01-05'']) = []"
    by (simp only: none snd_conv)
  have claim:
    "getHtml utc_host [] (Some ''true'') = ([], Inr ''There are no events to display.'')
     \<and> (snd (collect_events utc_host None None [feed_item ''soon'' ''2025-01-05'']) = []
          \<longrightarrow> getEvents utc_host [feed_item ''soon'' ''2025-01-05''] None None (Some ''3'')
              = (fst (collect_events utc_host None None [feed_item ''soon'' ''2025-01-05'']), []))"
    by (rule getHtml_no_events)
  from claim survivors
  have "getEvents utc_host [feed_item ''soon'' ''2025-01-05''] None None (Some ''3'')
          = (fst (collect_events utc_host None None [feed_item ''soon'' ''2025-01-05'']), [])"
    by blast
  then have "getEvents utc_host [feed_item ''soon'' ''2025-01-05''] None None (Some ''3'') = ([], [])"
    by (simp only: none fst_conv)
  with claim survivors show ?thesis by blast
qed

text \<open>
  C10. Every event that selection returns has a start and an end that are not null, because
  the overlap test returns false when either is null; so the formatter, applied to the
  result of selection, never reaches its branch \<open>Event date is invalid\<close>: it returns a
  string and reports nothing.
\<close>

theorem getEvents_dates_never_null:
  "(\<forall>ev \<in> set (snd (getEvents h doc b e c)). ev_start ev \<noteq> None \<and> ev_end ev \<noteq> None)
   \<and> snd (eventWithinDateRange h None eventEnd b e) = False
   \<and> snd (eventWithinDateRange h eventStart None b e) = False
   \<and> (\<exists>html. getHtml h (snd (getEvents h doc b e c)) sy = ([], Inr html))"
proof -
  have present:
    "\<forall>ev \<in> set (snd (getEvents h doc b e c)). ev_start ev \<noteq> None \<and> ev_end ev \<noteq> None"
    using getEvents_subset [of h doc b e c] collect_events_present [of _ h b e doc] by blast
  have n1: "snd (eventWithinDateRange h None eventEnd b e) = False"
    by (simp add: eventWithinDateRange_def)
  have n2: "snd (eventWithinDateRange h eventStart None b e) = False"
    by (simp add: eventWithinDateRange_def split: option.splits)
  show ?thesis using present n1 n2 getHtml_present [OF present] by blast
qed

text \<open>
  A feed with an item whose start element is empty of text (null) and an item of 5 January
  2025: selection returns the second alone, and the formatter returns a string for it.
\<close>

theorem getEvents_dates_never_null_witness:
  "snd (getEvents utc_host
          [\<lparr>startElements = [None], endElements = [Some ''2025-01-05''], item_title = Null,
            item_description = Null, item_link = Null\<rparr>,
           feed_item ''2025-01-05'' ''2025-01-05''] None None None)
     = [feed_event ''2025-01-05'' ''2025-01-05'']
   \<and> ev_start (feed_event ''2025-01-05'' ''2025-01-05'') \<noteq> None
   \<and> ev_end (feed_event ''2025-01-05'' ''2025-01-05'') \<noteq> None
   \<and> (\<exists>html. getHtml utc_host [feed_event ''2025-01-05'' ''2025-01-05''] None = ([], Inr html))"
proof -
  let ?doc = "[\<lparr>startElements = [None], endElements = [Some ''2025-01-05''], item_title = Null,
                item_description = Null, item_link = Null\<rparr>,
               feed_item ''2025-01-05'' ''2025-01-05'']"
  have sel: "snd (getEvents utc_host ?doc None None None) = [feed_event ''2025-01-05'' ''2025-01-05'']"
    by code_simp
  have claim:
    "(\<forall>ev \<in> set (snd (getEvents utc_host ?doc None None None)).
        ev_start ev \<noteq> None \<and> ev_end ev \<noteq> None)
     \<and> snd (eventWithinDateRange utc_host None None None None) = False
     \<and> snd (eventWithinDateRange utc_host None None None None) = False
     \<and> (\<exists>html. getHtml utc_host (snd (getEvents utc_host ?doc None None None)) None
                  = ([], Inr html))"
    by (rule getEvents_dates_never_null)
  from claim show ?thesis
    unfolding sel by simp
qed

end
